theory Spec2Isabelle
  imports Main "HOL-Library.Sublist"
begin

section \<open>Strings\<close>

text \<open>
  JavaScript strings are modelled as \<^typ>\<open>string\<close>. All the text the action inspects
  (logins, repository names, templates, URLs) is ASCII, where one \<^typ>\<open>char\<close> is one
  UTF-16 code unit.
\<close>

text \<open>\<open>String.prototype.toLowerCase\<close> on ASCII text: the letters A-Z are mapped, nothing else.\<close>

definition lowerChar :: "char \<Rightarrow> char" where
  "lowerChar c =
     (case map_of (zip ''ABCDEFGHIJKLMNOPQRSTUVWXYZ'' ''abcdefghijklmnopqrstuvwxyz'') c of
        None \<Rightarrow> c
      | Some d \<Rightarrow> d)"

definition toLowerCase :: "string \<Rightarrow> string" where
  "toLowerCase s = map lowerChar s"

text \<open>\<open>String.prototype.includes\<close>: the argument occurs at some position of the receiver.\<close>

fun str_includes :: "string \<Rightarrow> string \<Rightarrow> bool" where
  "str_includes [] sub = (sub = [])"
| "str_includes (c # cs) sub = (prefix sub (c # cs) \<or> str_includes cs sub)"

text \<open>
  The first occurrence of a pattern (\<open>indexOf\<close>): the text before it and the text
  after it, or \<open>None\<close> when the pattern does not occur.
\<close>

fun find_first :: "string \<Rightarrow> string \<Rightarrow> (string \<times> string) option" where
  "find_first pat [] = (if pat = [] then Some ([], []) else None)"
| "find_first pat (c # cs) =
     (if prefix pat (c # cs) then Some ([], drop (length pat) (c # cs))
      else map_option (\<lambda>(a, b). (c # a, b)) (find_first pat cs))"

text \<open>\<open>String.prototype.split\<close> with a string separator.\<close>

function split_str :: "string \<Rightarrow> string \<Rightarrow> string list" where
  "split_str sep s =
     (if sep = [] then map (\<lambda>c. [c]) s
      else (case find_first sep s of
              None \<Rightarrow> [s]
            | Some (a, b) \<Rightarrow> a # split_str sep b))"
  by pat_completeness auto

termination
proof (relation "measure (\<lambda>(sep, s). length s)")
  show "wf (measure (\<lambda>(sep, s). length s))"
    by simp
next
  fix sep s :: string and x :: "string \<times> string" and a b :: string
  assume sep: "sep \<noteq> []" and found: "find_first sep s = Some x" and x: "(a, b) = x"
  have "find_first sep s' = Some (a', b) \<Longrightarrow> length b < length s'" for s' a'
  proof (induction s' arbitrary: a')
    case Nil
    with sep show ?case by simp
  next
    case (Cons c cs)
    show ?case
    proof (cases "prefix sep (c # cs)")
      case True
      with Cons.prems sep show ?thesis by auto
    next
      case False
      with Cons.prems obtain a'' where "find_first sep cs = Some (a'', b)"
        by auto
      with Cons.IH show ?thesis by fastforce
    qed
  qed
  with found x show "((sep, b), (sep, s)) \<in> measure (\<lambda>(sep, s). length s)"
    by auto
qed

text \<open>
  \<open>String.prototype.replace\<close> with a string pattern and a string replacement: only the
  first occurrence is replaced, and the replacement text is expanded as ECMAScript's
  GetSubstitution prescribes when there are no capture groups: \<open>$$\<close> is a dollar sign,
  \<open>$&\<close> the matched text, \<open>$`\<close> the text before the match, \<open>$'\<close> the text after it;
  every other character, a lone \<open>$\<close> included, stands for itself.
\<close>

fun getSubstitution :: "string \<Rightarrow> string \<Rightarrow> string \<Rightarrow> string \<Rightarrow> string" where
  "getSubstitution matched pre post (c # d # rest) =
     (if c = CHR ''$'' \<and> d = CHR ''$'' then CHR ''$'' # getSubstitution matched pre post rest
      else if c = CHR ''$'' \<and> d = CHR ''&'' then matched @ getSubstitution matched pre post rest
      else if c = CHR ''$'' \<and> d = CHR 0x60 then pre @ getSubstitution matched pre post rest
      else if c = CHR ''$'' \<and> d = CHR 0x27 then post @ getSubstitution matched pre post rest
      else c # getSubstitution matched pre post (d # rest))"
| "getSubstitution matched pre post rest = rest"

definition str_replace :: "string \<Rightarrow> string \<Rightarrow> string \<Rightarrow> string" where
  "str_replace s pat replacement =
     (case find_first pat s of
        None \<Rightarrow> s
      | Some (pre, post) \<Rightarrow> pre @ getSubstitution pat pre post replacement @ post)"

text \<open>A number in a template literal: its decimal digits.\<close>

fun show_nat :: "nat \<Rightarrow> string" where
  "show_nat n =
     (if n < 10 then [''0123456789'' ! n]
      else show_nat (n div 10) @ [''0123456789'' ! (n mod 10)])"

declare show_nat.simps [simp del]

section \<open>Regular expressions\<close>

text \<open>
  The two regular expressions of the program are sequences of literals and of greedy
  one-or-more repetitions of a character class, between optional anchors: no flags, no
  alternation, no back-references. An expression is the list of its atoms.
\<close>

datatype cls = NotSlash | Digit

fun in_cls :: "cls \<Rightarrow> char \<Rightarrow> bool" where
  "in_cls NotSlash c = (c \<noteq> CHR ''/'')"
| "in_cls Digit c = (c \<in> set ''0123456789'')"

datatype atom = Bol | Eol | Lit string | Plus cls

text \<open>
  The backtracking matcher. \<open>re_match atoms i s\<close> matches the atoms against a prefix of
  \<open>s\<close>, which starts at index \<open>i\<close> of the input, and returns the text matched by each
  atom. A repetition first tries to take one more character and gives characters back
  only when the rest of the expression fails, as the ECMAScript matcher does.
\<close>

fun plus_match ::
  "cls \<Rightarrow> (nat \<Rightarrow> string \<Rightarrow> string list option) \<Rightarrow> string \<Rightarrow> nat \<Rightarrow> string \<Rightarrow> string list option"
where
  "plus_match c k acc i [] = None"
| "plus_match c k acc i (x # xs) =
     (if in_cls c x then
        (case plus_match c k (acc @ [x]) (Suc i) xs of
           Some r \<Rightarrow> Some r
         | None \<Rightarrow> map_option (Cons (acc @ [x])) (k (Suc i) xs))
      else None)"

primrec re_match :: "atom list \<Rightarrow> nat \<Rightarrow> string \<Rightarrow> string list option" where
  "re_match [] = (\<lambda>i s. Some [])"
| "re_match (a # as) =
     (case a of
        Bol \<Rightarrow> (\<lambda>i s. if i = 0 then map_option (Cons []) (re_match as i s) else None)
      | Eol \<Rightarrow> (\<lambda>i s. if s = [] then map_option (Cons []) (re_match as i s) else None)
      | Lit l \<Rightarrow>
          (\<lambda>i s. if prefix l s
                 then map_option (Cons l) (re_match as (i + length l) (drop (length l) s))
                 else None)
      | Plus c \<Rightarrow> plus_match c (re_match as) [])"

text \<open>
  \<open>String.prototype.match\<close> with an expression without the \<open>g\<close> flag: the match at the
  leftmost start index at which the matcher succeeds.
\<close>

fun re_search :: "atom list \<Rightarrow> nat \<Rightarrow> string \<Rightarrow> string list option" where
  "re_search atoms i [] = re_match atoms i []"
| "re_search atoms i (x # xs) =
     (case re_match atoms i (x # xs) of
        Some r \<Rightarrow> Some r
      | None \<Rightarrow> re_search atoms (Suc i) xs)"

definition str_match :: "string \<Rightarrow> atom list \<Rightarrow> string list option" where
  "str_match s atoms = re_search atoms 0 s"

text \<open>
  \<open>RE_COMMENT_URL\<close>. Its capture groups 1 to 4 are the four repetitions, the atoms
  2, 4, 6 and 8 of the list.
\<close>

definition RE_COMMENT_URL :: "atom list" where
  "RE_COMMENT_URL =
     [Bol, Lit ''https://github.com/'', Plus NotSlash, Lit ''/'', Plus NotSlash,
      Lit ''/issues/'', Plus Digit, Lit ''#issuecomment-'', Plus Digit, Eol]"

text \<open>
  \<open>escapeRegExp\<close> puts a backslash before each of the characters
  \<open>. * + ? ^ $ { } ( ) | [ ] \<close> and the backslash itself.
\<close>

definition syntaxChars :: "char list" where
  "syntaxChars = ''.*+?^${}()|[]'' @ [CHR 0x5C]"

definition escapeRegExp :: "string \<Rightarrow> string" where
  "escapeRegExp s = concat (map (\<lambda>c. if c \<in> set syntaxChars then [CHR 0x5C, c] else [c]) s)"

text \<open>
  What the \<open>RegExp\<close> constructor makes of a pattern text in which every syntax character
  is escaped: a backslash followed by a syntax character is that character, any other
  character is itself, and the pattern matches this literal text. A bare syntax
  character or another escape is outside this fragment (\<open>None\<close>).
\<close>

fun compile_literal :: "string \<Rightarrow> string option" where
  "compile_literal [] = Some []"
| "compile_literal [c] = (if c \<in> set syntaxChars then None else Some [c])"
| "compile_literal (c # d # rest) =
     (if c = CHR 0x5C then
        (if d \<in> set syntaxChars then map_option (Cons d) (compile_literal rest) else None)
      else if c \<in> set syntaxChars then None
      else map_option (Cons c) (compile_literal (d # rest)))"

section \<open>Reference extraction\<close>

datatype ref_error =
    NoURLFound
  | NotCommentURL
  | WrongRepository string string string string
  | TypeError
  | SyntaxError

text \<open>The \<open>message\<close> of the thrown \<open>Error\<close>.\<close>

fun message :: "ref_error \<Rightarrow> string" where
  "message NoURLFound = ''No approval comment URL found in the PR body.''"
| "message NotCommentURL = ''The referenced URL is not the correct GitHub issue comment URL.''"
| "message (WrongRepository owner repo o' r') =
     ''The referenced comment URL should belong to '' @ owner @ ''/'' @ repo @ '', not ''
       @ o' @ ''/'' @ r' @ ''.''"
| "message TypeError = ''Cannot read properties of undefined (reading 'replace')''"
| "message SyntaxError = ''Invalid regular expression''"

record reference =
  ref_owner :: string
  ref_repo :: string
  ref_issue :: string
  ref_commentId :: string
  ref_commentUrl :: string

text \<open>
  \<open>reUrl\<close>: the source of \<open>RE_COMMENT_URL\<close> without its leading \<open>^\<close> and its trailing \<open>$\<close>.
\<close>

definition strip_bol :: "atom list \<Rightarrow> atom list" where
  "strip_bol atoms = (case atoms of Bol # rest \<Rightarrow> rest | _ \<Rightarrow> atoms)"

definition strip_eol :: "atom list \<Rightarrow> atom list" where
  "strip_eol atoms =
     (if atoms \<noteq> [] \<and> last atoms = Eol then butlast atoms else atoms)"

definition reUrl :: "atom list" where
  "reUrl = strip_eol (strip_bol RE_COMMENT_URL)"

text \<open>
  \<open>extractCommentURL\<close>. A template without \<open>{url}\<close> has no \<open>parts[1]\<close>, and
  \<open>escapeRegExp(undefined)\<close> throws a TypeError. Group 1 of the combined expression is
  the text matched by the atoms of \<open>reUrl\<close>, which follow the one literal of the prefix.
\<close>

definition extractCommentURL ::
  "string \<Rightarrow> string \<Rightarrow> string \<Rightarrow> string \<Rightarrow> ref_error + reference"
where
  "extractCommentURL prBody referenceStr owner repo =
     (case split_str ''{url}'' referenceStr of
        p0 # p1 # _ \<Rightarrow>
          (case (compile_literal (escapeRegExp p0), compile_literal (escapeRegExp p1)) of
             (Some l0, Some l1) \<Rightarrow>
               (case str_match prBody ([Lit l0] @ reUrl @ [Lit l1]) of
                  None \<Rightarrow> Inl NoURLFound
                | Some m \<Rightarrow>
                    (let commentUrl = concat (take (length reUrl) (drop 1 m)) in
                     if commentUrl = [] then Inl NoURLFound
                     else
                       (case str_match commentUrl RE_COMMENT_URL of
                          None \<Rightarrow> Inl NotCommentURL
                        | Some u \<Rightarrow>
                            (let pOwner = toLowerCase (u ! 2);
                                 pRepo = toLowerCase (u ! 4)
                             in if pOwner \<noteq> owner \<or> pRepo \<noteq> repo
                                then Inl (WrongRepository owner repo (u ! 2) (u ! 4))
                                else Inr \<lparr>ref_owner = pOwner, ref_repo = pRepo,
                                          ref_issue = u ! 6, ref_commentId = u ! 8,
                                          ref_commentUrl = commentUrl\<rparr>))))
           | _ \<Rightarrow> Inl SyntaxError)
      | _ \<Rightarrow> Inl TypeError)"

section \<open>Effects\<close>

text \<open>
  What an invocation does to the outside: the diagnostics it writes (\<open>core.info\<close>,
  \<open>core.setFailed\<close>) and the requests it sends. Every request carries the headers of
  \<open>_headers\<close> (the bearer token, the accepted media type, the API version), which no
  decision depends on; an event records the method, the URL and the object given to
  \<open>JSON.stringify\<close>.
\<close>

datatype http_method = GET | POST | PATCH

datatype payload = CommentPayload string | StatePayload string

datatype event = Info string | SetFailed string | Fetch http_method string "payload option"

text \<open>
  A computation yields the events it produced, in order, and either the value it returned
  (\<open>Inr\<close>) or the \<open>message\<close> of the \<open>Error\<close> it threw (\<open>Inl\<close>).
\<close>

type_synonym 'a io = "event list \<times> (string + 'a)"

definition io_return :: "'a \<Rightarrow> 'a io" where
  "io_return x = ([], Inr x)"

definition io_throw :: "string \<Rightarrow> 'a io" where
  "io_throw msg = ([], Inl msg)"

definition io_bind :: "'a io \<Rightarrow> ('a \<Rightarrow> 'b io) \<Rightarrow> 'b io" where
  "io_bind m f =
     (case m of
        (es, Inl msg) \<Rightarrow> (es, Inl msg)
      | (es, Inr x) \<Rightarrow> (case f x of (es', r) \<Rightarrow> (es @ es', r)))"

text \<open>\<open>try { m } catch (err) { h(err.message) }\<close>\<close>

definition io_catch :: "'a io \<Rightarrow> (string \<Rightarrow> 'a io) \<Rightarrow> 'a io" where
  "io_catch m h =
     (case m of
        (es, Inl msg) \<Rightarrow> (case h msg of (es', r) \<Rightarrow> (es @ es', r))
      | (es, Inr x) \<Rightarrow> (es, Inr x))"

definition info :: "string \<Rightarrow> unit io" where
  "info msg = ([Info msg], Inr ())"

definition setFailed :: "string \<Rightarrow> unit io" where
  "setFailed msg = ([SetFailed msg], Inr ())"

section \<open>The platform\<close>

text \<open>
  The bodies of the four endpoints that are read, with the fields the program looks at.
  A field that may be absent or \<open>null\<close> is an option.
\<close>

datatype account = Account (login: "string option")

datatype comment =
  Comment (body: "string option") (user: "account option") (issue_url: "string option")

datatype issue = Issue (state: "string option")

datatype permission = Permission (permission: "string option")

text \<open>
  What \<open>fetch\<close> resolves to: the status, the body as \<open>res.json()\<close> parses it (\<open>None\<close> when
  the body is empty, is not JSON or is \<open>null\<close>) and the \<open>link\<close> header.
\<close>

datatype 'a fetched = Fetched (f_status: nat) (f_json: "'a option") (f_link: "string option")

text \<open>
  The platform answers each request with a response, or \<open>fetch\<close> rejects (\<open>Inl\<close>, with the
  message of the error). One run sends no request twice, so the answers are a function of
  the request.
\<close>

record world =
  contributors_api :: "string \<Rightarrow> string + account list fetched"
  comment_api :: "string \<Rightarrow> string + comment fetched"
  issue_api :: "string \<Rightarrow> string + issue fetched"
  permission_api :: "string \<Rightarrow> string + permission fetched"
  write_api :: "http_method \<Rightarrow> string \<Rightarrow> payload \<Rightarrow> string + unit fetched"

text \<open>The object \<open>_request\<close> returns; \<open>ok\<close> is \<open>res.ok\<close>, a status from 200 to 299.\<close>

datatype 'a response =
  Response (status: nat) (ok: bool) (data: "'a option") (link: "string option")

definition request ::
  "http_method \<Rightarrow> string \<Rightarrow> payload option \<Rightarrow> string + 'a fetched \<Rightarrow> 'a response io"
where
  "request m url payload fetch_result =
     io_bind ([Fetch m url payload], Inr ()) (\<lambda>_.
       case fetch_result of
         Inl msg \<Rightarrow> io_throw (''error calling GitHub API: '' @ msg)
       | Inr res \<Rightarrow>
           io_return
             (Response (f_status res) (200 \<le> f_status res \<and> f_status res \<le> 299)
                (if f_status res \<noteq> 204 then f_json res else None) (f_link res)))"

definition get :: "(string \<Rightarrow> string + 'a fetched) \<Rightarrow> string \<Rightarrow> 'a response io" where
  "get endpoint url = request GET url None (endpoint url)"

definition send :: "world \<Rightarrow> http_method \<Rightarrow> string \<Rightarrow> payload \<Rightarrow> unit response io" where
  "send w m url payload = request m url (Some payload) (write_api w m url payload)"

section \<open>The checker\<close>

record config =
  approvalStr :: string
  referenceStr :: string
  autocloseMsg :: string
  excludeContribs :: bool

record PRApproval =
  token :: string
  owner :: string
  repo :: string
  prNumber :: nat
  prUser :: string
  prBody :: string
  cfg :: config

definition api :: "PRApproval \<Rightarrow> string" where
  "api t = ''https://api.github.com/repos/'' @ owner t @ ''/'' @ repo t"

definition ALLOWED_PERMISSIONS :: "string set" where
  "ALLOWED_PERMISSIONS = {''write'', ''admin''}"

subsection \<open>\<open>_closePR\<close>\<close>

definition closePR :: "world \<Rightarrow> PRApproval \<Rightarrow> string \<Rightarrow> unit io" where
  "closePR w t reason =
     io_bind (info reason) (\<lambda>_.
     io_catch
       (io_bind
          (send w POST (api t @ ''/issues/'' @ show_nat (prNumber t) @ ''/comments'')
             (CommentPayload
                (autocloseMsg (cfg t) @ [CHR 0x0A, CHR 0x0A] @ ''**Reason:** '' @ reason)))
          (\<lambda>res.
        io_bind
          (if \<not> ok res
           then info (''errror posting auto-close comment (status '' @ show_nat (status res)
                        @ '').'')
           else io_return ())
          (\<lambda>_.
        io_bind
          (send w PATCH (api t @ ''/pulls/'' @ show_nat (prNumber t)) (StatePayload ''closed''))
          (\<lambda>closeRes.
        if \<not> ok closeRes
        then info (''errror closing PR #'' @ show_nat (prNumber t) @ '' (status ''
                     @ show_nat (status closeRes) @ '').'')
        else io_return ()))))
       (\<lambda>_. info ''error closing PR''))"

subsection \<open>\<open>_isContributor\<close>\<close>

definition rel_next :: string where
  "rel_next = ''rel='' @ [CHR 0x22] @ ''next'' @ [CHR 0x22]"

definition contributors_url :: "PRApproval \<Rightarrow> nat \<Rightarrow> string" where
  "contributors_url t page = api t @ ''/contributors?per_page=100&page='' @ show_nat page"

text \<open>
  One turn of the loop, for a page and after the events \<open>es\<close> of the pages before it:
  either the loop returns (\<open>Inl\<close>, with the events and the value returned or the error
  thrown), or it goes on to the next page (\<open>Inr\<close>, with the events so far).
\<close>

definition contributorsPage ::
  "world \<Rightarrow> PRApproval \<Rightarrow> nat \<Rightarrow> event list \<Rightarrow> bool io + event list"
where
  "contributorsPage w t page es =
     (case get (contributors_api w) (contributors_url t page) of
        (es', Inl msg) \<Rightarrow> Inl (es @ es', Inl msg)
      | (es', Inr res) \<Rightarrow>
          (case data res of
             None \<Rightarrow> Inl (es @ es', Inr False)
           | Some contributors \<Rightarrow>
               if status res \<noteq> 200 then Inl (es @ es', Inr False)
               else if list_ex (\<lambda>c. map_option toLowerCase (login c) = Some (prUser t))
                         contributors
               then Inl (es @ es', Inr True)
               else if \<not> str_includes (case link res of None \<Rightarrow> [] | Some l \<Rightarrow> l) rel_next
               then Inl (es @ es', Inr False)
               else Inr (es @ es')))"

text \<open>The loop from a given page on. It may run for ever: \<open>None\<close> is the loop that never returns.\<close>

partial_function (option) isContributor_from ::
  "world \<Rightarrow> PRApproval \<Rightarrow> nat \<Rightarrow> event list \<Rightarrow> bool io option"
where
  "isContributor_from w t page es =
     (case contributorsPage w t page es of
        Inl returned \<Rightarrow> Some returned
      | Inr es' \<Rightarrow> isContributor_from w t (page + 1) es')"

declare isContributor_from.simps [code]

definition isContributor :: "world \<Rightarrow> PRApproval \<Rightarrow> bool io option" where
  "isContributor w t = isContributor_from w t 1 []"

subsection \<open>\<open>check\<close>\<close>

text \<open>
  \<open>check\<close> returns nothing; the value of the model tells which \<open>return\<close> was taken:
  \<open>return this._closePR(reason)\<close> is \<open>ExitClosed reason\<close>, \<open>return core.setFailed(msg)\<close>
  is \<open>ExitFailed msg\<close>, the \<open>return\<close> for a past contributor is \<open>ExitSkip\<close> and the end of
  the function is \<open>Approved\<close>.
\<close>

datatype exit = Approved | ExitSkip | ExitClosed string | ExitFailed string

text \<open>A block either returns from \<open>check\<close> (\<open>Inl\<close>) or hands a value to the next one.\<close>

definition closeWith :: "world \<Rightarrow> PRApproval \<Rightarrow> string \<Rightarrow> (exit + 'a) io" where
  "closeWith w t reason = io_bind (closePR w t reason) (\<lambda>_. io_return (Inl (ExitClosed reason)))"

definition failWith :: "string \<Rightarrow> (exit + 'a) io" where
  "failWith msg = io_bind (setFailed msg) (\<lambda>_. io_return (Inl (ExitFailed msg)))"

definition io_continue :: "(exit + 'a) io \<Rightarrow> ('a \<Rightarrow> exit io) \<Rightarrow> exit io" where
  "io_continue m f = io_bind m (\<lambda>r. case r of Inl e \<Rightarrow> io_return e | Inr x \<Rightarrow> f x)"

text \<open>Lines 182 to 188: the reference.\<close>

definition findReference :: "PRApproval \<Rightarrow> (exit + reference) io" where
  "findReference t =
     io_catch
       (case extractCommentURL (prBody t) (referenceStr (cfg t)) (owner t) (repo t) of
          Inl err \<Rightarrow> io_throw (message err)
        | Inr parsed \<Rightarrow>
            io_bind (info (''Found comment URL: '' @ ref_commentUrl parsed))
              (\<lambda>_. io_return (Inr parsed)))
       (\<lambda>msg. failWith msg)"

text \<open>Lines 190 to 203: the comment. \<open>status === 404 || !data\<close> is decided on the data first.\<close>

definition fetchComment :: "world \<Rightarrow> PRApproval \<Rightarrow> reference \<Rightarrow> (exit + comment) io" where
  "fetchComment w t parsed =
     io_catch
       (io_bind (get (comment_api w) (api t @ ''/issues/comments/'' @ ref_commentId parsed))
          (\<lambda>res.
             case data res of
               None \<Rightarrow> closeWith w t ''The referenced PR approval comment was not found.''
             | Some c \<Rightarrow>
                 if status res = 404
                 then closeWith w t ''The referenced PR approval comment was not found.''
                 else if status res \<noteq> 200
                 then failWith (''GitHub API returned status '' @ show_nat (status res)
                                  @ '' while fetching comment.'')
                 else io_return (Inr c)))
       (\<lambda>msg. failWith (''error fetching comment: '' @ msg))"

text \<open>
  Lines 205 to 214: the issue. An absent \<open>issue_url\<close> reaches \<open>fetch\<close> as the text
  \<open>undefined\<close>.
\<close>

definition checkIssue :: "world \<Rightarrow> PRApproval \<Rightarrow> comment \<Rightarrow> (exit + unit) io" where
  "checkIssue w t c =
     io_catch
       (io_bind
          (get (issue_api w) (case issue_url c of None \<Rightarrow> ''undefined'' | Some u \<Rightarrow> u))
          (\<lambda>res.
             case data res of
               None \<Rightarrow> failWith (''error fetching issue (status '' @ show_nat (status res) @ '').'')
             | Some i \<Rightarrow>
                 if status res \<noteq> 200
                 then failWith (''error fetching issue (status '' @ show_nat (status res)
                                  @ '').'')
                 else if state i \<noteq> Some ''open''
                 then closeWith w t ''The referenced PR approval comment issue is closed.''
                 else io_return (Inr ())))
       (\<lambda>msg. failWith (''error checking issue state: '' @ msg))"

text \<open>Lines 216 to 220: the approval string.\<close>

definition expectedPhrase :: "PRApproval \<Rightarrow> string" where
  "expectedPhrase t = str_replace (approvalStr (cfg t)) ''{user}'' (''@'' @ prUser t)"

definition checkPhrase :: "world \<Rightarrow> PRApproval \<Rightarrow> comment \<Rightarrow> (exit + unit) io" where
  "checkPhrase w t c =
     (if \<not> (case body c of None \<Rightarrow> False | Some b \<Rightarrow> str_includes b (expectedPhrase t))
      then closeWith w t
             (''Approval string '' @ [CHR 0x22] @ expectedPhrase t @ [CHR 0x22]
                @ '' was not found in the referenced comment.'')
      else io_return (Inr ()))"

text \<open>Lines 222 to 226: the approver; an empty login is falsy as an absent one is.\<close>

definition findApprover :: "comment \<Rightarrow> (exit + string) io" where
  "findApprover c =
     (case (case user c of None \<Rightarrow> None | Some u \<Rightarrow> login u) of
        None \<Rightarrow> failWith ''The referenced approval comment does not have a valid author.''
      | Some approver \<Rightarrow>
          if approver = []
          then failWith ''The referenced approval comment does not have a valid author.''
          else io_return (Inr approver))"

text \<open>Lines 227 to 237: the permission of the approver.\<close>

definition checkPermission :: "world \<Rightarrow> PRApproval \<Rightarrow> string \<Rightarrow> (exit + unit) io" where
  "checkPermission w t approver =
     io_catch
       (io_bind
          (get (permission_api w) (api t @ ''/collaborators/'' @ approver @ ''/permission''))
          (\<lambda>res.
             case data res of
               None \<Rightarrow> failWith (''error checking permissions for @'' @ approver @ '' (status ''
                                   @ show_nat (status res) @ '').'')
             | Some d \<Rightarrow>
                 if status res \<noteq> 200
                 then failWith (''error checking permissions for @'' @ approver @ '' (status ''
                                  @ show_nat (status res) @ '').'')
                 else if \<not> (case permission d of
                               None \<Rightarrow> False
                             | Some p \<Rightarrow> p \<in> ALLOWED_PERMISSIONS)
                 then closeWith w t (''@'' @ approver
                        @ '' does not have write or admin access to this repository.'')
                 else io_return (Inr ())))
       (\<lambda>msg. failWith (''error checking approver permissions: '' @ msg))"

text \<open>Lines 182 to 239 of \<open>check\<close>: everything after the contributor exemption.\<close>

definition checkApproval :: "world \<Rightarrow> PRApproval \<Rightarrow> exit io" where
  "checkApproval w t =
     io_continue (findReference t) (\<lambda>parsed.
     io_continue (fetchComment w t parsed) (\<lambda>c.
     io_continue (checkIssue w t c) (\<lambda>_.
     io_continue (checkPhrase w t c) (\<lambda>_.
     io_continue (findApprover c) (\<lambda>approver.
     io_continue (checkPermission w t approver) (\<lambda>_.
     io_bind (info (''PR #'' @ show_nat (prNumber t) @ '' has valid approval from @''
                      @ approver @ ''. All checks passed.''))
       (\<lambda>_. io_return Approved)))))))"

text \<open>Lines 168 to 180: the exemption of past contributors.\<close>

definition contributorGate :: "PRApproval \<Rightarrow> bool io \<Rightarrow> (exit + unit) io" where
  "contributorGate t isContrib =
     io_bind (info ''exclude_past_contributors is enabled. Checking contributor list'') (\<lambda>_.
     io_catch
       (io_bind isContrib (\<lambda>found.
          if found
          then io_bind (info (''@'' @ prUser t
                                @ '' is a past contributor. Skipping approval check.''))
                 (\<lambda>_. io_return (Inl ExitSkip))
          else io_bind (info (''@'' @ prUser t
                                @ '' is not a past contributor. Continue with approval check.''))
                 (\<lambda>_. io_return (Inr ()))))
       (\<lambda>msg. failWith (''error checking contributors: '' @ msg)))"

definition check :: "world \<Rightarrow> PRApproval \<Rightarrow> exit io option" where
  "check w t =
     (let start = info (''verifying PR #'' @ show_nat (prNumber t) @ '' by @'' @ prUser t
                          @ '' in '' @ owner t @ ''/'' @ repo t)
      in if excludeContribs (cfg t)
         then (case isContributor w t of
                 None \<Rightarrow> None
               | Some isContrib \<Rightarrow>
                   Some (io_bind start (\<lambda>_.
                           io_continue (contributorGate t isContrib)
                             (\<lambda>_. checkApproval w t))))
         else Some (io_bind start (\<lambda>_. checkApproval w t)))"

section \<open>\<open>run\<close>\<close>

text \<open>The \<open>pull_request\<close> object of the event, with the fields \<open>run\<close> reads.\<close>

record pull_request =
  pr_number :: nat
  pr_user_login :: string
  pr_body :: "string option"
  pr_base_repo_owner_login :: string
  pr_base_repo_name :: string

text \<open>
  The host: the environment variable, the event file as \<open>readFileSync\<close> and \<open>JSON.parse\<close>
  deliver it (\<open>Inl\<close> is the message of the error thrown; \<open>Inr\<close> is the \<open>pull_request\<close> of the
  event, if it has one), and \<open>core.getInput\<close>, which gives the empty text for an input that
  is not set.
\<close>

record env =
  GITHUB_EVENT_PATH :: "string option"
  event_file :: "string \<Rightarrow> string + pull_request option"
  getInput :: "string \<Rightarrow> string"

definition DEFAULT_CONFIG :: config where
  "DEFAULT_CONFIG =
     \<lparr>approvalStr = ''{user} PR approved'',
      referenceStr = ''Approval: {url}'',
      autocloseMsg = ''This PR was automatically closed because the reference to approval (issue) could not be found. Please open an issue first, get approval from the maintainer, and reference the approval comment URL in your PR body in the format `Approval: {url}`.'',
      excludeContribs = False\<rparr>"

definition validateConfig :: "config \<Rightarrow> bool io" where
  "validateConfig c =
     (if \<not> str_includes (referenceStr c) ''{url}''
      then io_bind (setFailed ''`reference_str` must contain the `{url}` placeholder.'')
             (\<lambda>_. io_return False)
      else if \<not> str_includes (approvalStr c) ''{user}''
      then io_bind (setFailed ''`approval_str` must contain the `{user}` placeholder.'')
             (\<lambda>_. io_return False)
      else io_return True)"

text \<open>How \<open>run\<close> returned: after \<open>check\<close>, or at one of its own \<open>return\<close>s.\<close>

datatype run_exit = Checked exit | OwnerSkip | InvalidConfig | RunFailed string

definition runFailed :: "string \<Rightarrow> run_exit io option" where
  "runFailed msg = Some (io_bind (setFailed msg) (\<lambda>_. io_return (RunFailed msg)))"

definition orDefault :: "string \<Rightarrow> string \<Rightarrow> string" where
  "orDefault v d = (if v = [] then d else v)"

definition makeConfig :: "env \<Rightarrow> config" where
  "makeConfig e =
     \<lparr>approvalStr = orDefault (getInput e ''approval_str'') (approvalStr DEFAULT_CONFIG),
      referenceStr = orDefault (getInput e ''reference_str'') (referenceStr DEFAULT_CONFIG),
      autocloseMsg = orDefault (getInput e ''pr_autoclose_message'') (autocloseMsg DEFAULT_CONFIG),
      excludeContribs = (getInput e ''exclude_past_contributors'' = ''true'')\<rparr>"

definition makeChecker :: "env \<Rightarrow> pull_request \<Rightarrow> PRApproval" where
  "makeChecker e pr =
     \<lparr>token = getInput e ''github_token'',
      owner = toLowerCase (pr_base_repo_owner_login pr),
      repo = toLowerCase (pr_base_repo_name pr),
      prNumber = pr_number pr,
      prUser = toLowerCase (pr_user_login pr),
      prBody = (case pr_body pr of None \<Rightarrow> [] | Some b \<Rightarrow> b),
      cfg = makeConfig e\<rparr>"

definition run :: "env \<Rightarrow> world \<Rightarrow> run_exit io option" where
  "run e w =
     (case GITHUB_EVENT_PATH e of
        None \<Rightarrow> runFailed ''Missing GITHUB_EVENT_PATH.''
      | Some eventPath \<Rightarrow>
          if eventPath = [] then runFailed ''Missing GITHUB_EVENT_PATH.''
          else
            (case event_file e eventPath of
               Inl msg \<Rightarrow> runFailed (''Could not read GitHub event payload: '' @ msg)
             | Inr None \<Rightarrow>
                 runFailed ''This action must be triggered by the `pull_request` event.''
             | Inr (Some pr) \<Rightarrow>
                 if getInput e ''github_token'' = []
                 then runFailed ''github_token input is required.''
                 else if toLowerCase (pr_base_repo_owner_login pr)
                           = toLowerCase (pr_user_login pr)
                 then Some (io_bind
                        (info ''PR author is the same as the repo owner. Skipping approval checks.'')
                        (\<lambda>_. io_return OwnerSkip))
                 else
                   (case validateConfig (makeConfig e) of
                      (es, Inr True) \<Rightarrow>
                        map_option
                          (\<lambda>c. io_bind (es, Inr ()) (\<lambda>_. io_bind c (\<lambda>x. io_return (Checked x))))
                          (check w (makeChecker e pr))
                    | (es, Inr False) \<Rightarrow> Some (es, Inr InvalidConfig)
                    | (es, Inl msg) \<Rightarrow> Some (es, Inl msg))))"

section \<open>Notions the properties are stated with\<close>

text \<open>
  The declarative reading of an expression: the texts \<open>ps\<close>, one for each atom, fit the
  atoms at index \<open>i\<close> of the input when each text is one its atom accepts; \<open>rest\<close> is
  the input after the match.
\<close>

fun atom_fits :: "atom \<Rightarrow> nat \<Rightarrow> string \<Rightarrow> string \<Rightarrow> bool" where
  "atom_fits Bol i p rest = (p = [] \<and> i = 0)"
| "atom_fits Eol i p rest = (p = [] \<and> rest = [])"
| "atom_fits (Lit l) i p rest = (p = l)"
| "atom_fits (Plus c) i p rest = (p \<noteq> [] \<and> list_all (in_cls c) p)"

primrec fits :: "atom list \<Rightarrow> nat \<Rightarrow> string list \<Rightarrow> string \<Rightarrow> bool" where
  "fits [] i ps rest = (ps = [])"
| "fits (a # as) i ps rest =
     (case ps of
        [] \<Rightarrow> False
      | p # ps' \<Rightarrow> atom_fits a i p (concat ps' @ rest) \<and> fits as (i + length p) ps' rest)"

text \<open>The two requests of \<open>_closePR\<close>.\<close>

definition comments_url :: "PRApproval \<Rightarrow> string" where
  "comments_url t = api t @ ''/issues/'' @ show_nat (prNumber t) @ ''/comments''"

definition pull_url :: "PRApproval \<Rightarrow> string" where
  "pull_url t = api t @ ''/pulls/'' @ show_nat (prNumber t)"

definition autoclose_comment :: "PRApproval \<Rightarrow> string \<Rightarrow> payload" where
  "autoclose_comment t reason =
     CommentPayload (autocloseMsg (cfg t) @ [CHR 0x0A, CHR 0x0A] @ ''**Reason:** '' @ reason)"

text \<open>
  What \<open>_get\<close> yields for a page of the list; whether the loop goes on to the next page
  after it (status 200, data without the author, a \<open>link\<close> header with \<open>rel="next"\<close>); and
  what the loop returns when it stops there.
\<close>

definition page :: "world \<Rightarrow> PRApproval \<Rightarrow> nat \<Rightarrow> string + account list response" where
  "page w t n = snd (get (contributors_api w) (contributors_url t n))"

definition advances :: "world \<Rightarrow> PRApproval \<Rightarrow> nat \<Rightarrow> bool" where
  "advances w t n =
     (case page w t n of
        Inl msg \<Rightarrow> False
      | Inr res \<Rightarrow>
          status res = 200
          \<and> (case data res of
                None \<Rightarrow> False
              | Some cs \<Rightarrow>
                  \<not> list_ex (\<lambda>c. map_option toLowerCase (login c) = Some (prUser t)) cs)
          \<and> str_includes (case link res of None \<Rightarrow> [] | Some l \<Rightarrow> l) rel_next)"

definition verdict :: "world \<Rightarrow> PRApproval \<Rightarrow> nat \<Rightarrow> string + bool" where
  "verdict w t n =
     (case page w t n of
        Inl msg \<Rightarrow> Inl msg
      | Inr res \<Rightarrow>
          Inr (status res = 200
               \<and> (case data res of
                     None \<Rightarrow> False
                   | Some cs \<Rightarrow>
                       list_ex (\<lambda>c. map_option toLowerCase (login c) = Some (prUser t)) cs)))"

text \<open>
  The claim's reading of a page: it was read with status 200 and its data has an entry
  whose login equals the author's login, letter case aside.
\<close>

definition lists_author :: "world \<Rightarrow> PRApproval \<Rightarrow> string \<Rightarrow> nat \<Rightarrow> bool" where
  "lists_author w t author n =
     (case page w t n of
        Inl msg \<Rightarrow> False
      | Inr res \<Rightarrow>
          status res = 200
          \<and> (case data res of
                None \<Rightarrow> False
              | Some cs \<Rightarrow>
                  list_ex (\<lambda>c. case login c of
                                 None \<Rightarrow> False
                               | Some l \<Rightarrow> toLowerCase l = toLowerCase author) cs))"

definition page_requests :: "PRApproval \<Rightarrow> nat \<Rightarrow> nat \<Rightarrow> event list" where
  "page_requests t p k = map (\<lambda>j. Fetch GET (contributors_url t j) None) [p..<Suc k]"

section \<open>Scenarios\<close>

text \<open>
  The pull request of the specification's end-to-end scenarios: number 7 by \<open>bob\<close> in
  \<open>acme/widgets\<close>, with the default configuration; the platform answers the comment,
  issue and permission requests as given and accepts every write.
\<close>

definition scenario_pr :: "string \<Rightarrow> PRApproval" where
  "scenario_pr b =
     \<lparr>token = ''secret'', owner = ''acme'', repo = ''widgets'', prNumber = 7, prUser = ''bob'',
      prBody = b, cfg = DEFAULT_CONFIG\<rparr>"

definition scenario_world ::
  "string + comment fetched \<Rightarrow> string + issue fetched \<Rightarrow> string + permission fetched \<Rightarrow> world"
where
  "scenario_world c i p =
     \<lparr>contributors_api = (\<lambda>url. Inl ''unreachable''),
      comment_api = (\<lambda>url. c),
      issue_api = (\<lambda>url. i),
      permission_api = (\<lambda>url. p),
      write_api = (\<lambda>m url body. Inr (Fetched 200 None None))\<rparr>"

definition valid_body :: string where
  "valid_body = ''Approval: https://github.com/acme/widgets/issues/5#issuecomment-9''"

definition approval_comment :: "string \<Rightarrow> comment" where
  "approval_comment b =
     Comment (Some b) (Some (Account (Some ''carol'')))
       (Some ''https://api.github.com/repos/acme/widgets/issues/5'')"

definition valid_reference :: reference where
  "valid_reference =
     \<lparr>ref_owner = ''acme'', ref_repo = ''widgets'', ref_issue = ''5'', ref_commentId = ''9'',
      ref_commentUrl = ''https://github.com/acme/widgets/issues/5#issuecomment-9''\<rparr>"

text \<open>The specification's example: the default template and the author \<open>alice\<close>.\<close>

definition alice_pr :: PRApproval where
  "alice_pr = (scenario_pr valid_body)\<lparr>prUser := ''alice''\<rparr>"

definition open_issue :: "string + issue fetched" where
  "open_issue = Inr (Fetched 200 (Some (Issue (Some ''open''))) None)"

definition commented :: "string \<Rightarrow> string + comment fetched" where
  "commented b = Inr (Fetched 200 (Some (approval_comment b)) None)"

text \<open>
  The bodies of three pull requests: a reference without the issue part (the
  specification's scenario A), no reference at all, and a well-formed reference to a
  comment of another repository.
\<close>

definition malformed_body :: string where
  "malformed_body = ''Approval: https://github.com/acme/widgets#issuecomment-9''"

definition foreign_body :: string where
  "foreign_body = ''Approval: https://github.com/other/widgets/issues/5#issuecomment-9''"

text \<open>A platform on which the request that posts the comment fails in transport.\<close>

definition post_fails :: world where
  "post_fails =
     (scenario_world (Inl ''offline'') (Inl ''offline'') (Inl ''offline''))
       \<lparr>write_api := (\<lambda>m url p. if m = POST then Inl ''socket hang up''
                                   else Inr (Fetched 200 None None))\<rparr>"

text \<open>
  An event for a pull request that the owner of \<open>acme/widgets\<close> opened without any
  reference, on a runner where the input \<open>force_validate_owner_prs\<close> is set to \<open>true\<close>.
\<close>

definition owner_pr :: pull_request where
  "owner_pr =
     \<lparr>pr_number = 7, pr_user_login = ''Acme'', pr_body = None,
      pr_base_repo_owner_login = ''acme'', pr_base_repo_name = ''widgets''\<rparr>"

definition forced_env :: env where
  "forced_env =
     \<lparr>GITHUB_EVENT_PATH = Some ''/github/workflow/event.json'',
      event_file = (\<lambda>path. Inr (Some owner_pr)),
      getInput = (\<lambda>name. if name = ''github_token'' then ''secret''
                          else if name = ''force_validate_owner_prs'' then ''true''
                          else [])\<rparr>"

definition silent_world :: world where
  "silent_world = scenario_world (Inl ''offline'') (Inl ''offline'') (Inl ''offline'')"

text \<open>
  The specification's scenario D: contributors are exempt, the author \<open>Bob\<close> is on the second of
  two pages. In \<open>broken_page\<close> the second page is answered with status 500 instead, and
  in \<open>endless_pages\<close> every page is an empty list whose \<open>link\<close> header is the bare text
  \<open>rel="next"\<close>, which is not a well-formed header.
\<close>

definition gate_pr :: PRApproval where
  "gate_pr = (scenario_pr valid_body)\<lparr>cfg := DEFAULT_CONFIG\<lparr>excludeContribs := True\<rparr>\<rparr>"

definition first_page :: "account list fetched" where
  "first_page =
     Fetched 200 (Some [Account (Some ''carol''), Account None])
       (Some (''<https://api.github.com/repositories/1/contributors?per_page=100&page=2>; ''
              @ rel_next))"

definition listing :: "account list fetched \<Rightarrow> world" where
  "listing second_page =
     (scenario_world (Inl ''offline'') (Inl ''offline'') (Inl ''offline''))
       \<lparr>contributors_api :=
          (\<lambda>url. if url = ''https://api.github.com/repos/acme/widgets/contributors?per_page=100&page=1''
                 then Inr first_page
                 else Inr second_page)\<rparr>"

definition two_pages :: world where
  "two_pages = listing (Fetched 200 (Some [Account (Some ''dave''), Account (Some ''BOB'')]) None)"

definition broken_page :: world where
  "broken_page = listing (Fetched 500 (Some [Account (Some ''BOB'')]) None)"

definition endless_pages :: world where
  "endless_pages =
     (scenario_world (Inl ''offline'') (Inl ''offline'') (Inl ''offline''))
       \<lparr>contributors_api := (\<lambda>url. Inr (Fetched 200 (Some []) (Some rel_next)))\<rparr>"

section \<open>The text of the template is matched verbatim\<close>

text \<open>
  Whatever the template holds, \<open>escapeRegExp\<close> yields a pattern that the constructor reads as
  the literal text itself, so building the expression never fails.
\<close>

lemma escapeRegExp_Cons:
  "escapeRegExp (c # s) = (if c \<in> set syntaxChars then [CHR 0x5C, c] else [c]) @ escapeRegExp s"
  by (simp add: escapeRegExp_def)

lemma compile_literal_plain:
  "c \<notin> set syntaxChars \<Longrightarrow> compile_literal (c # rest) = map_option (Cons c) (compile_literal rest)"
  by (cases rest) (auto simp: syntaxChars_def)

lemma compile_literal_escapeRegExp: "compile_literal (escapeRegExp s) = Some s"
proof (induction s)
  case Nil
  show ?case by (simp add: escapeRegExp_def)
next
  case (Cons c s)
  show ?case
  proof (cases "c \<in> set syntaxChars")
    case True
    with Cons.IH show ?thesis
      by (simp add: escapeRegExp_Cons)
  next
    case False
    with Cons.IH show ?thesis
      by (simp add: escapeRegExp_Cons compile_literal_plain)
  qed
qed

lemma extractCommentURL_no_syntax_error:
  "extractCommentURL b template own rep \<noteq> Inl SyntaxError"
  unfolding extractCommentURL_def
  by (simp add: compile_literal_escapeRegExp Let_def split: list.splits option.splits)

section \<open>The matcher finds a match exactly when there is one\<close>

lemma plus_match_sound:
  "plus_match c k acc i s = Some r \<Longrightarrow>
   \<exists>p rest r'. p \<noteq> [] \<and> list_all (in_cls c) p \<and> s = p @ rest \<and>
     k (i + length p) rest = Some r' \<and> r = (acc @ p) # r'"
proof (induction s arbitrary: acc i)
  case Nil
  then show ?case by simp
next
  case (Cons x xs)
  from Cons.prems have x: "in_cls c x"
    by (simp split: if_splits)
  show ?case
  proof (cases "plus_match c k (acc @ [x]) (Suc i) xs")
    case None
    with Cons.prems x obtain r' where "k (Suc i) xs = Some r'" "r = (acc @ [x]) # r'"
      by auto
    with x show ?thesis
      by (intro exI [of _ "[x]"] exI [of _ xs] exI [of _ r']) simp
  next
    case (Some r0)
    with Cons.prems x have "r0 = r" by simp
    with Some Cons.IH obtain p rest r' where
      "p \<noteq> []" "list_all (in_cls c) p" "xs = p @ rest"
      "k (Suc i + length p) rest = Some r'" "r = ((acc @ [x]) @ p) # r'"
      by blast
    with x show ?thesis
      by (intro exI [of _ "x # p"] exI [of _ rest] exI [of _ r']) simp
  qed
qed

lemma plus_match_complete:
  "p \<noteq> [] \<Longrightarrow> list_all (in_cls c) p \<Longrightarrow> k (i + length p) rest \<noteq> None \<Longrightarrow>
   plus_match c k acc i (p @ rest) \<noteq> None"
proof (induction p arbitrary: acc i)
  case Nil
  then show ?case by simp
next
  case (Cons x p)
  show ?case
  proof (cases "p = []")
    case True
    with Cons.prems show ?thesis
      by (auto split: option.splits)
  next
    case False
    with Cons.prems Cons.IH [of "Suc i" "acc @ [x]"]
    have "plus_match c k (acc @ [x]) (Suc i) (p @ rest) \<noteq> None"
      by simp
    with Cons.prems show ?thesis
      by (auto split: option.splits)
  qed
qed

lemma re_match_sound:
  "re_match atoms i s = Some ps \<Longrightarrow> \<exists>rest. s = concat ps @ rest \<and> fits atoms i ps rest"
proof (induction atoms arbitrary: i s ps)
  case Nil
  then show ?case by simp
next
  case (Cons a atoms)
  show ?case
  proof (cases a)
    case Bol
    with Cons.prems obtain ps' where "i = 0" "re_match atoms i s = Some ps'" "ps = [] # ps'"
      by (auto split: if_splits)
    with Cons.IH Bol show ?thesis by fastforce
  next
    case Eol
    with Cons.prems obtain ps' where e: "s = []" "re_match atoms i s = Some ps'" "ps = [] # ps'"
      by (auto split: if_splits)
    from Cons.IH [OF e(2)] obtain rest where "s = concat ps' @ rest" "fits atoms i ps' rest"
      by blast
    with e Eol show ?thesis by auto
  next
    case (Lit l)
    with Cons.prems obtain ps' where l: "prefix l s"
      "re_match atoms (i + length l) (drop (length l) s) = Some ps'" "ps = l # ps'"
      by (auto split: if_splits)
    from l(1) obtain t where t: "s = l @ t"
      by (auto simp: prefix_def)
    with l(2) have "re_match atoms (i + length l) t = Some ps'"
      by simp
    from Cons.IH [OF this] obtain rest where
      "t = concat ps' @ rest" "fits atoms (i + length l) ps' rest"
      by blast
    with t l(3) Lit show ?thesis by auto
  next
    case (Plus c)
    with Cons.prems have "plus_match c (re_match atoms) [] i s = Some ps"
      by simp
    from plus_match_sound [OF this] obtain p rest0 ps' where p:
      "p \<noteq> []" "list_all (in_cls c) p" "s = p @ rest0"
      "re_match atoms (i + length p) rest0 = Some ps'" "ps = p # ps'"
      by auto
    from Cons.IH [OF p(4)] obtain rest where
      "rest0 = concat ps' @ rest" "fits atoms (i + length p) ps' rest"
      by blast
    with p Plus show ?thesis by auto
  qed
qed

lemma re_match_complete:
  "fits atoms i ps rest \<Longrightarrow> re_match atoms i (concat ps @ rest) \<noteq> None"
proof (induction atoms arbitrary: i ps)
  case Nil
  then show ?case by simp
next
  case (Cons a atoms)
  from Cons.prems obtain p ps' where ps: "ps = p # ps'"
    "atom_fits a i p (concat ps' @ rest)" "fits atoms (i + length p) ps' rest"
    by (auto split: list.splits)
  from Cons.IH [OF ps(3)] have IH: "re_match atoms (i + length p) (concat ps' @ rest) \<noteq> None" .
  show ?case
  proof (cases a)
    case Bol
    with ps IH show ?thesis by auto
  next
    case Eol
    with ps IH show ?thesis by auto
  next
    case (Lit l)
    with ps IH show ?thesis by auto
  next
    case (Plus c)
    with ps have "p \<noteq> []" "list_all (in_cls c) p" by auto
    from plus_match_complete [OF this, of "re_match atoms" i "concat ps' @ rest" "[]"] IH
    show ?thesis using Plus ps(1) by simp
  qed
qed

lemma re_search_sound:
  "re_search atoms i s = Some ps \<Longrightarrow> \<exists>j s'. re_match atoms j s' = Some ps"
  by (induction atoms i s rule: re_search.induct) (auto split: option.splits)

lemma re_search_complete:
  "re_match atoms i s \<noteq> None \<Longrightarrow> re_search atoms i s \<noteq> None"
  by (cases s) (auto split: option.splits)

text \<open>A match has one text for each atom, so the groups read from it exist.\<close>

lemma fits_length: "fits atoms i ps rest \<Longrightarrow> length ps = length atoms"
  by (induction atoms arbitrary: i ps) (auto split: list.splits)

lemma str_match_length:
  assumes "str_match s atoms = Some ps"
  shows "length ps = length atoms"
proof -
  from assms obtain j s' where "re_match atoms j s' = Some ps"
    unfolding str_match_def by (blast dest: re_search_sound)
  then obtain rest where "fits atoms j ps rest"
    by (blast dest: re_match_sound)
  then show ?thesis
    by (rule fits_length)
qed

lemma reUrl_eq:
  "reUrl = [Lit ''https://github.com/'', Plus NotSlash, Lit ''/'', Plus NotSlash,
      Lit ''/issues/'', Plus Digit, Lit ''#issuecomment-'', Plus Digit]"
  by (simp add: reUrl_def strip_eol_def strip_bol_def RE_COMMENT_URL_def)

lemma captured_url_reparses:
  assumes "str_match b (Lit l0 # reUrl @ [Lit l1]) = Some m"
  shows "str_match (concat (take (length reUrl) (drop (Suc 0) m))) RE_COMMENT_URL \<noteq> None"
proof -
  from assms obtain j s' where "re_match (Lit l0 # reUrl @ [Lit l1]) j s' = Some m"
    unfolding str_match_def by (blast dest: re_search_sound)
  from re_match_sound [OF this] obtain rest where
    f: "fits (Lit l0 # reUrl @ [Lit l1]) j m rest"
    by blast
  then obtain p1 p2 p3 p4 where m: "m = [l0, ''https://github.com/'', p1, ''/'', p2,
      ''/issues/'', p3, ''#issuecomment-'', p4, l1]"
    and p: "p1 \<noteq> []" "list_all (in_cls NotSlash) p1" "p2 \<noteq> []" "list_all (in_cls NotSlash) p2"
      "p3 \<noteq> []" "list_all (in_cls Digit) p3" "p4 \<noteq> []" "list_all (in_cls Digit) p4"
    by (auto simp: reUrl_eq split: list.splits)
  let ?u = "[[], ''https://github.com/'', p1, ''/'', p2, ''/issues/'', p3, ''#issuecomment-'', p4, []]"
  have eq: "concat (take (length reUrl) (drop (Suc 0) m)) = concat ?u @ []"
    by (simp add: m reUrl_eq)
  from p have "fits RE_COMMENT_URL 0 ?u []"
    by (simp add: RE_COMMENT_URL_def)
  from re_match_complete [OF this]
  have "re_search RE_COMMENT_URL 0 (concat ?u @ []) \<noteq> None"
    by (rule re_search_complete)
  then show ?thesis
    unfolding str_match_def eq .
qed

lemma valid_body_reference:
  "extractCommentURL valid_body ''Approval: {url}'' ''acme'' ''widgets'' = Inr valid_reference"
  by code_simp

text \<open>
  C10. In \<open>extractCommentURL\<close>, whenever the expression built from the template matches
  the body, the URL it captured matches \<open>RE_COMMENT_URL\<close> again; so for no body, template,
  owner and repository does the function throw the error ``The referenced URL is not the
  correct GitHub issue comment URL.''
\<close>

theorem malformed_branch_unreachable:
  "(\<forall>l0 l1 m. str_match b ([Lit l0] @ reUrl @ [Lit l1]) = Some m \<longrightarrow>
      str_match (concat (take (length reUrl) (drop 1 m))) RE_COMMENT_URL \<noteq> None)
   \<and> extractCommentURL b template own rep \<noteq> Inl NotCommentURL"
proof (intro conjI allI impI)
  fix l0 l1 m
  assume "str_match b ([Lit l0] @ reUrl @ [Lit l1]) = Some m"
  then show "str_match (concat (take (length reUrl) (drop 1 m))) RE_COMMENT_URL \<noteq> None"
    using captured_url_reparses [of b l0 l1 m] by simp
next
  show "extractCommentURL b template own rep \<noteq> Inl NotCommentURL"
    unfolding extractCommentURL_def
    by (auto simp: Let_def split: list.splits option.splits dest: captured_url_reparses)
qed

theorem malformed_branch_unreachable_witness:
  "str_match valid_body ([Lit ''Approval: ''] @ reUrl @ [Lit []])
     = Some [''Approval: '', ''https://github.com/'', ''acme'', ''/'', ''widgets'', ''/issues/'',
             ''5'', ''#issuecomment-'', ''9'', []]
   \<and> str_match
         (concat (take (length reUrl) (drop 1
            [''Approval: '', ''https://github.com/'', ''acme'', ''/'', ''widgets'', ''/issues/'',
             ''5'', ''#issuecomment-'', ''9'', []])))
         RE_COMMENT_URL \<noteq> None
   \<and> extractCommentURL valid_body ''Approval: {url}'' ''acme'' ''widgets'' = Inr valid_reference
   \<and> extractCommentURL valid_body ''Approval: {url}'' ''acme'' ''widgets'' \<noteq> Inl NotCommentURL"
proof -
  have m: "str_match valid_body ([Lit ''Approval: ''] @ reUrl @ [Lit []])
     = Some [''Approval: '', ''https://github.com/'', ''acme'', ''/'', ''widgets'', ''/issues/'',
             ''5'', ''#issuecomment-'', ''9'', []]"
    by code_simp
  with malformed_branch_unreachable [of valid_body "''Approval: {url}''" "''acme''" "''widgets''"]
    valid_body_reference
  show ?thesis
    by blast
qed

section \<open>Computations step by step\<close>

lemma io_bind_Inr: "snd m = Inr x \<Longrightarrow> io_bind m f = (fst m @ fst (f x), snd (f x))"
  by (cases m) (simp add: io_bind_def split: prod.splits)

lemma io_bind_Inl: "snd m = Inl e \<Longrightarrow> io_bind m f = (fst m, Inl e)"
  by (cases m) (simp add: io_bind_def)

lemma io_catch_Inr: "snd m = Inr x \<Longrightarrow> io_catch m h = m"
  by (cases m) (simp add: io_catch_def)

lemma io_catch_Inl: "snd m = Inl e \<Longrightarrow> io_catch m h = (fst m @ fst (h e), snd (h e))"
  by (cases m) (simp add: io_catch_def split: prod.splits)

lemma io_continue_Inl: "snd m = Inr (Inl e) \<Longrightarrow> io_continue m f = (fst m, Inr e)"
  by (simp add: io_continue_def io_bind_Inr io_return_def)

lemma io_continue_Inr:
  "snd m = Inr (Inr x) \<Longrightarrow> io_continue m f = (fst m @ fst (f x), snd (f x))"
  by (simp add: io_continue_def io_bind_Inr)

lemma fst_get: "fst (get endpoint url) = [Fetch GET url None]"
  by (simp add: get_def request_def io_bind_def io_throw_def io_return_def split: sum.splits)

lemma fst_send: "fst (send w m url p) = [Fetch m url (Some p)]"
  by (simp add: send_def request_def io_bind_def io_throw_def io_return_def split: sum.splits)

lemma snd_send:
  "snd (send w m url p) =
     (case write_api w m url p of
        Inl msg \<Rightarrow> Inl (''error calling GitHub API: '' @ msg)
      | Inr res \<Rightarrow> Inr (Response (f_status res) (200 \<le> f_status res \<and> f_status res \<le> 299)
                (if f_status res \<noteq> 204 then f_json res else None) (f_link res)))"
  by (simp add: send_def request_def io_bind_def io_throw_def io_return_def split: sum.splits)

lemma snd_info: "snd (info msg) = Inr ()" and fst_info: "fst (info msg) = [Info msg]"
  by (simp_all add: info_def)

lemma snd_closePR: "snd (closePR w t reason) = Inr ()"
  unfolding closePR_def
  by (cases "send w POST (api t @ ''/issues/'' @ show_nat (prNumber t) @ ''/comments'')
             (CommentPayload
                (autocloseMsg (cfg t) @ [CHR 0x0A, CHR 0x0A] @ ''**Reason:** '' @ reason))";
      cases "send w PATCH (api t @ ''/pulls/'' @ show_nat (prNumber t)) (StatePayload ''closed'')")
     (auto simp: io_bind_def io_catch_def info_def io_return_def split: sum.splits prod.splits)

lemma closeWith_eq:
  "closeWith w t reason = (fst (closePR w t reason), Inr (Inl (ExitClosed reason)))"
  by (simp add: closeWith_def io_bind_Inr [OF snd_closePR] io_return_def)

lemma failWith_eq: "failWith msg = ([SetFailed msg], Inr (Inl (ExitFailed msg)))"
  by (simp add: failWith_def setFailed_def io_bind_def io_return_def)

lemma findReference_found:
  "extractCommentURL (prBody t) (referenceStr (cfg t)) (owner t) (repo t) = Inr parsed \<Longrightarrow>
   findReference t = ([Info (''Found comment URL: '' @ ref_commentUrl parsed)], Inr (Inr parsed))"
  by (simp add: findReference_def io_catch_def io_bind_def info_def io_return_def)

lemma findReference_failed:
  "extractCommentURL (prBody t) (referenceStr (cfg t)) (owner t) (repo t) = Inl err \<Longrightarrow>
   findReference t = ([SetFailed (message err)], Inr (Inl (ExitFailed (message err))))"
  by (simp add: findReference_def io_catch_def io_throw_def failWith_eq)

lemma fetchComment_response:
  assumes "snd (get (comment_api w) (api t @ ''/issues/comments/'' @ ref_commentId parsed)) = Inr res"
  shows "fetchComment w t parsed =
     (if status res = 404 \<or> data res = None
      then ([Fetch GET (api t @ ''/issues/comments/'' @ ref_commentId parsed) None]
              @ fst (closePR w t ''The referenced PR approval comment was not found.''),
            Inr (Inl (ExitClosed ''The referenced PR approval comment was not found.'')))
      else if status res \<noteq> 200
      then ([Fetch GET (api t @ ''/issues/comments/'' @ ref_commentId parsed) None,
             SetFailed (''GitHub API returned status '' @ show_nat (status res)
                          @ '' while fetching comment.'')],
            Inr (Inl (ExitFailed (''GitHub API returned status '' @ show_nat (status res)
                          @ '' while fetching comment.''))))
      else ([Fetch GET (api t @ ''/issues/comments/'' @ ref_commentId parsed) None],
            Inr (Inr (the (data res)))))"
  unfolding fetchComment_def io_bind_Inr [OF assms]
  by (auto simp: fst_get closeWith_eq failWith_eq io_catch_def io_return_def
      split: option.splits)

lemma checkIssue_response:
  assumes "snd (get (issue_api w) (case issue_url c of None \<Rightarrow> ''undefined'' | Some u \<Rightarrow> u)) = Inr res"
  shows "checkIssue w t c =
     (if status res \<noteq> 200 \<or> data res = None
      then ([Fetch GET (case issue_url c of None \<Rightarrow> ''undefined'' | Some u \<Rightarrow> u) None,
             SetFailed (''error fetching issue (status '' @ show_nat (status res) @ '').'')],
            Inr (Inl (ExitFailed (''error fetching issue (status '' @ show_nat (status res)
                          @ '').''))))
      else if state (the (data res)) \<noteq> Some ''open''
      then ([Fetch GET (case issue_url c of None \<Rightarrow> ''undefined'' | Some u \<Rightarrow> u) None]
              @ fst (closePR w t ''The referenced PR approval comment issue is closed.''),
            Inr (Inl (ExitClosed ''The referenced PR approval comment issue is closed.'')))
      else ([Fetch GET (case issue_url c of None \<Rightarrow> ''undefined'' | Some u \<Rightarrow> u) None],
            Inr (Inr ())))"
  unfolding checkIssue_def io_bind_Inr [OF assms]
  by (auto simp: fst_get closeWith_eq failWith_eq io_catch_def io_return_def
      split: option.splits)

lemma checkPermission_response:
  assumes "snd (get (permission_api w) (api t @ ''/collaborators/'' @ approver @ ''/permission''))
             = Inr res"
  shows "checkPermission w t approver =
     (if status res \<noteq> 200 \<or> data res = None
      then ([Fetch GET (api t @ ''/collaborators/'' @ approver @ ''/permission'') None,
             SetFailed (''error checking permissions for @'' @ approver @ '' (status ''
                          @ show_nat (status res) @ '').'')],
            Inr (Inl (ExitFailed (''error checking permissions for @'' @ approver @ '' (status ''
                          @ show_nat (status res) @ '').''))))
      else if permission (the (data res)) \<noteq> Some ''write''
              \<and> permission (the (data res)) \<noteq> Some ''admin''
      then ([Fetch GET (api t @ ''/collaborators/'' @ approver @ ''/permission'') None]
              @ fst (closePR w t (''@'' @ approver
                        @ '' does not have write or admin access to this repository.'')),
            Inr (Inl (ExitClosed (''@'' @ approver
                        @ '' does not have write or admin access to this repository.''))))
      else ([Fetch GET (api t @ ''/collaborators/'' @ approver @ ''/permission'') None],
            Inr (Inr ())))"
  unfolding checkPermission_def io_bind_Inr [OF assms]
  by (auto simp: fst_get closeWith_eq failWith_eq io_catch_def io_return_def
      ALLOWED_PERMISSIONS_def split: option.splits)

section \<open>The comment\<close>

text \<open>
  C2. Once the reference is found, the response to the request for the comment decides:
  a status 404 or a missing body closes the pull request with the reason that the comment
  was not found (the events of \<open>closePR\<close> follow the request), and any other status but
  200 only reports a failure, with no further request.
\<close>

theorem comment_fetch_outcomes:
  assumes "extractCommentURL (prBody t) (referenceStr (cfg t)) (owner t) (repo t) = Inr parsed"
    and "snd (get (comment_api w) (api t @ ''/issues/comments/'' @ ref_commentId parsed)) = Inr res"
  shows "(status res = 404 \<or> data res = None \<longrightarrow>
            checkApproval w t =
              ([Info (''Found comment URL: '' @ ref_commentUrl parsed),
                Fetch GET (api t @ ''/issues/comments/'' @ ref_commentId parsed) None]
               @ fst (closePR w t ''The referenced PR approval comment was not found.''),
               Inr (ExitClosed ''The referenced PR approval comment was not found.'')))
       \<and> (status res \<noteq> 404 \<and> data res \<noteq> None \<and> status res \<noteq> 200 \<longrightarrow>
            checkApproval w t =
              ([Info (''Found comment URL: '' @ ref_commentUrl parsed),
                Fetch GET (api t @ ''/issues/comments/'' @ ref_commentId parsed) None,
                SetFailed (''GitHub API returned status '' @ show_nat (status res)
                             @ '' while fetching comment.'')],
               Inr (ExitFailed (''GitHub API returned status '' @ show_nat (status res)
                             @ '' while fetching comment.''))))"
  unfolding checkApproval_def
  by (simp add: findReference_found [OF assms(1)] fetchComment_response [OF assms(2)]
      io_continue_Inr io_continue_Inl)

theorem comment_fetch_outcomes_witness:
  "snd (checkApproval (scenario_world (Inr (Fetched 404 (Some (approval_comment ''@bob PR approved'')) None))
          (Inl ''unreachable'') (Inl ''unreachable'')) (scenario_pr valid_body))
     = Inr (ExitClosed ''The referenced PR approval comment was not found.'')
   \<and> snd (checkApproval (scenario_world (Inr (Fetched 200 None None))
          (Inl ''unreachable'') (Inl ''unreachable'')) (scenario_pr valid_body))
     = Inr (ExitClosed ''The referenced PR approval comment was not found.'')
   \<and> snd (checkApproval (scenario_world (Inr (Fetched 500 (Some (approval_comment ''@bob PR approved'')) None))
          (Inl ''unreachable'') (Inl ''unreachable'')) (scenario_pr valid_body))
     = Inr (ExitFailed ''GitHub API returned status 500 while fetching comment.'')"
proof -
  let ?t = "scenario_pr valid_body"
  let ?c = "approval_comment ''@bob PR approved''"
  let ?w1 = "scenario_world (Inr (Fetched 404 (Some ?c) None)) (Inl ''unreachable'') (Inl ''unreachable'')"
  let ?w2 = "scenario_world (Inr (Fetched 200 None None)) (Inl ''unreachable'') (Inl ''unreachable'')"
  let ?w3 = "scenario_world (Inr (Fetched 500 (Some ?c) None)) (Inl ''unreachable'') (Inl ''unreachable'')"
  have ref: "extractCommentURL (prBody ?t) (referenceStr (cfg ?t)) (owner ?t) (repo ?t)
               = Inr valid_reference"
    by code_simp
  have r1: "snd (get (comment_api ?w1) (api ?t @ ''/issues/comments/'' @ ref_commentId valid_reference))
              = Inr (Response 404 False (Some ?c) None)"
    by code_simp
  have r2: "snd (get (comment_api ?w2) (api ?t @ ''/issues/comments/'' @ ref_commentId valid_reference))
              = Inr (Response 200 True None None)"
    by code_simp
  have r3: "snd (get (comment_api ?w3) (api ?t @ ''/issues/comments/'' @ ref_commentId valid_reference))
              = Inr (Response 500 False (Some ?c) None)"
    by code_simp
  have s: "show_nat 500 = ''500''"
    by code_simp
  from comment_fetch_outcomes [OF ref r1] comment_fetch_outcomes [OF ref r2]
    comment_fetch_outcomes [OF ref r3]
  show ?thesis
    by (simp add: s)
qed

section \<open>The scenarios' answers\<close>

lemma get_scenario_comment:
  "snd (get (comment_api (scenario_world (Inr (Fetched st (Some c) l)) i p)) url)
     = Inr (Response st (200 \<le> st \<and> st \<le> 299) (if st \<noteq> 204 then Some c else None) l)"
  by (simp add: get_def request_def io_bind_def io_return_def scenario_world_def)

lemma get_scenario_issue:
  "snd (get (issue_api (scenario_world c (Inr (Fetched st j l)) p)) url)
     = Inr (Response st (200 \<le> st \<and> st \<le> 299) (if st \<noteq> 204 then j else None) l)"
  by (simp add: get_def request_def io_bind_def io_return_def scenario_world_def)

lemma get_scenario_permission:
  "snd (get (permission_api (scenario_world c i (Inr (Fetched st j l)))) url)
     = Inr (Response st (200 \<le> st \<and> st \<le> 299) (if st \<noteq> 204 then j else None) l)"
  by (simp add: get_def request_def io_bind_def io_return_def scenario_world_def)

lemma scenario_reference:
  "extractCommentURL (prBody (scenario_pr valid_body)) (referenceStr (cfg (scenario_pr valid_body)))
     (owner (scenario_pr valid_body)) (repo (scenario_pr valid_body)) = Inr valid_reference"
  by code_simp

section \<open>The issue\<close>

text \<open>
  C6. With the reference found and the comment fetched (status 200, with data), the
  response to the request for the comment's issue decides before the approval string and
  the approver are looked at: status 200 with data whose state is not \<open>open\<close> closes the
  pull request with the reason that the issue is closed, whatever the comment says and
  whoever wrote it; another status or missing data reports a failure. In both cases no
  permission is requested.
\<close>

theorem closed_issue_outcomes:
  assumes "extractCommentURL (prBody t) (referenceStr (cfg t)) (owner t) (repo t) = Inr parsed"
    and "snd (get (comment_api w) (api t @ ''/issues/comments/'' @ ref_commentId parsed)) = Inr cres"
    and "status cres = 200" and "data cres = Some c"
    and "snd (get (issue_api w) (case issue_url c of None \<Rightarrow> ''undefined'' | Some u \<Rightarrow> u)) = Inr ires"
  shows "(status ires = 200 \<and> data ires = Some i \<and> state i \<noteq> Some ''open'' \<longrightarrow>
            checkApproval w t =
              ([Info (''Found comment URL: '' @ ref_commentUrl parsed),
                Fetch GET (api t @ ''/issues/comments/'' @ ref_commentId parsed) None,
                Fetch GET (case issue_url c of None \<Rightarrow> ''undefined'' | Some u \<Rightarrow> u) None]
               @ fst (closePR w t ''The referenced PR approval comment issue is closed.''),
               Inr (ExitClosed ''The referenced PR approval comment issue is closed.'')))
       \<and> (status ires \<noteq> 200 \<or> data ires = None \<longrightarrow>
            checkApproval w t =
              ([Info (''Found comment URL: '' @ ref_commentUrl parsed),
                Fetch GET (api t @ ''/issues/comments/'' @ ref_commentId parsed) None,
                Fetch GET (case issue_url c of None \<Rightarrow> ''undefined'' | Some u \<Rightarrow> u) None,
                SetFailed (''error fetching issue (status '' @ show_nat (status ires) @ '').'')],
               Inr (ExitFailed (''error fetching issue (status '' @ show_nat (status ires)
                                  @ '').''))))"
  unfolding checkApproval_def
  using assms(3,4)
  by (simp add: findReference_found [OF assms(1)] fetchComment_response [OF assms(2)]
      checkIssue_response [OF assms(5)] io_continue_Inr io_continue_Inl)

theorem closed_issue_outcomes_witness:
  "snd (checkApproval
          (scenario_world (Inr (Fetched 200 (Some (approval_comment ''@bob PR approved'')) None))
             (Inr (Fetched 200 (Some (Issue (Some ''closed''))) None))
             (Inr (Fetched 200 (Some (Permission (Some ''admin''))) None)))
          (scenario_pr valid_body))
     = Inr (ExitClosed ''The referenced PR approval comment issue is closed.'')
   \<and> snd (checkApproval
          (scenario_world (Inr (Fetched 200 (Some (approval_comment ''@bob PR approved'')) None))
             (Inr (Fetched 502 None None))
             (Inr (Fetched 200 (Some (Permission (Some ''admin''))) None)))
          (scenario_pr valid_body))
     = Inr (ExitFailed ''error fetching issue (status 502).'')"
proof -
  let ?t = "scenario_pr valid_body"
  let ?c = "approval_comment ''@bob PR approved''"
  let ?p = "Inr (Fetched 200 (Some (Permission (Some ''admin''))) None)"
  let ?w1 = "scenario_world (Inr (Fetched 200 (Some ?c) None))
               (Inr (Fetched 200 (Some (Issue (Some ''closed''))) None)) ?p"
  let ?w2 = "scenario_world (Inr (Fetched 200 (Some ?c) None)) (Inr (Fetched 502 None None)) ?p"
  have s: "show_nat 502 = ''502''"
    by code_simp
  have c1: "snd (get (comment_api ?w1) (api ?t @ ''/issues/comments/'' @ ref_commentId valid_reference))
              = Inr (Response 200 True (Some ?c) None)"
    and c2: "snd (get (comment_api ?w2) (api ?t @ ''/issues/comments/'' @ ref_commentId valid_reference))
              = Inr (Response 200 True (Some ?c) None)"
    by (simp_all add: get_scenario_comment)
  have i1: "snd (get (issue_api ?w1) (case issue_url ?c of None \<Rightarrow> ''undefined'' | Some u \<Rightarrow> u))
              = Inr (Response 200 True (Some (Issue (Some ''closed''))) None)"
    and i2: "snd (get (issue_api ?w2) (case issue_url ?c of None \<Rightarrow> ''undefined'' | Some u \<Rightarrow> u))
              = Inr (Response 502 False None None)"
    by (simp_all add: get_scenario_issue)
  have 1: "snd (checkApproval ?w1 ?t)
             = Inr (ExitClosed ''The referenced PR approval comment issue is closed.'')"
    using closed_issue_outcomes [OF scenario_reference c1 _ _ i1, where i = "Issue (Some ''closed'')"]
    by simp
  have 2: "snd (checkApproval ?w2 ?t) = Inr (ExitFailed ''error fetching issue (status 502).'')"
    using closed_issue_outcomes [OF scenario_reference c2 _ _ i2]
    by (simp add: s)
  from 1 2 show ?thesis by (intro conjI)
qed

section \<open>The approver\<close>

lemma checkPhrase_eq:
  "checkPhrase w t c =
     (if (case body c of None \<Rightarrow> False | Some b \<Rightarrow> str_includes b (expectedPhrase t))
      then ([], Inr (Inr ()))
      else (fst (closePR w t (''Approval string '' @ [CHR 0x22] @ expectedPhrase t @ [CHR 0x22]
                @ '' was not found in the referenced comment.'')),
            Inr (Inl (ExitClosed (''Approval string '' @ [CHR 0x22] @ expectedPhrase t
                @ [CHR 0x22] @ '' was not found in the referenced comment.'')))))"
  by (simp add: checkPhrase_def closeWith_eq io_return_def)

lemma findApprover_eq:
  "findApprover c =
     (case (case user c of None \<Rightarrow> None | Some u \<Rightarrow> login u) of
        None \<Rightarrow> ([SetFailed ''The referenced approval comment does not have a valid author.''],
                 Inr (Inl (ExitFailed
                   ''The referenced approval comment does not have a valid author.'')))
      | Some approver \<Rightarrow>
          if approver = []
          then ([SetFailed ''The referenced approval comment does not have a valid author.''],
                Inr (Inl (ExitFailed
                  ''The referenced approval comment does not have a valid author.'')))
          else ([], Inr (Inr approver)))"
  by (simp add: findApprover_def failWith_eq io_return_def split: option.splits)

text \<open>
  C5. When every earlier step has passed (reference found, comment fetched, issue open,
  approval string present, approver known) and the permission request is answered with
  status 200 and data, the pull request is approved exactly when the permission in the
  answer is \<open>write\<close> or \<open>admin\<close>, with no request after the permission's; with any other
  permission it is closed with the reason that the approver has no write or admin access.
\<close>

theorem permission_decides:
  assumes "extractCommentURL (prBody t) (referenceStr (cfg t)) (owner t) (repo t) = Inr parsed"
    and "snd (get (comment_api w) (api t @ ''/issues/comments/'' @ ref_commentId parsed)) = Inr cres"
    and "status cres = 200" and "data cres = Some c"
    and "snd (get (issue_api w) (case issue_url c of None \<Rightarrow> ''undefined'' | Some u \<Rightarrow> u)) = Inr ires"
    and "status ires = 200" and "data ires = Some i" and "state i = Some ''open''"
    and "body c = Some b" and "str_includes b (expectedPhrase t)"
    and "user c = Some u" and "login u = Some approver" and "approver \<noteq> []"
    and "snd (get (permission_api w) (api t @ ''/collaborators/'' @ approver @ ''/permission''))
           = Inr pres"
    and "status pres = 200" and "data pres = Some d"
  shows "(snd (checkApproval w t) = Inr Approved
            \<longleftrightarrow> permission d = Some ''write'' \<or> permission d = Some ''admin'')
       \<and> (permission d = Some ''write'' \<or> permission d = Some ''admin'' \<longrightarrow>
            fst (checkApproval w t) =
              [Info (''Found comment URL: '' @ ref_commentUrl parsed),
               Fetch GET (api t @ ''/issues/comments/'' @ ref_commentId parsed) None,
               Fetch GET (case issue_url c of None \<Rightarrow> ''undefined'' | Some u \<Rightarrow> u) None,
               Fetch GET (api t @ ''/collaborators/'' @ approver @ ''/permission'') None,
               Info (''PR #'' @ show_nat (prNumber t) @ '' has valid approval from @''
                       @ approver @ ''. All checks passed.'')])
       \<and> (permission d \<noteq> Some ''write'' \<and> permission d \<noteq> Some ''admin'' \<longrightarrow>
            checkApproval w t =
              ([Info (''Found comment URL: '' @ ref_commentUrl parsed),
                Fetch GET (api t @ ''/issues/comments/'' @ ref_commentId parsed) None,
                Fetch GET (case issue_url c of None \<Rightarrow> ''undefined'' | Some u \<Rightarrow> u) None,
                Fetch GET (api t @ ''/collaborators/'' @ approver @ ''/permission'') None]
               @ fst (closePR w t (''@'' @ approver
                        @ '' does not have write or admin access to this repository.'')),
               Inr (ExitClosed (''@'' @ approver
                        @ '' does not have write or admin access to this repository.''))))"
proof -
  have "checkApproval w t =
      (case checkPermission w t approver of
         (es, r) \<Rightarrow>
           io_continue
             ([Info (''Found comment URL: '' @ ref_commentUrl parsed),
               Fetch GET (api t @ ''/issues/comments/'' @ ref_commentId parsed) None,
               Fetch GET (case issue_url c of None \<Rightarrow> ''undefined'' | Some u \<Rightarrow> u) None] @ es, r)
             (\<lambda>_. io_bind (info (''PR #'' @ show_nat (prNumber t) @ '' has valid approval from @''
                      @ approver @ ''. All checks passed.''))
                    (\<lambda>_. io_return Approved)))"
    unfolding checkApproval_def
    using assms(3,4,6-13)
    by (simp add: findReference_found [OF assms(1)] fetchComment_response [OF assms(2)]
        checkIssue_response [OF assms(5)] checkPhrase_eq findApprover_eq
        io_continue_Inr io_continue_Inl io_continue_def io_bind_def split: prod.splits sum.splits)
  then show ?thesis
    using assms(15,16)
    by (auto simp: checkPermission_response [OF assms(14)] io_continue_def io_bind_def
        info_def io_return_def)
qed

theorem permission_decides_witness:
  "snd (checkApproval
          (scenario_world (Inr (Fetched 200 (Some (approval_comment ''@bob PR approved'')) None))
             (Inr (Fetched 200 (Some (Issue (Some ''open''))) None))
             (Inr (Fetched 200 (Some (Permission (Some ''write''))) None)))
          (scenario_pr valid_body))
     = Inr Approved
   \<and> snd (checkApproval
          (scenario_world (Inr (Fetched 200 (Some (approval_comment ''@bob PR approved'')) None))
             (Inr (Fetched 200 (Some (Issue (Some ''open''))) None))
             (Inr (Fetched 200 (Some (Permission (Some ''read''))) None)))
          (scenario_pr valid_body))
     = Inr (ExitClosed ''@carol does not have write or admin access to this repository.'')"
proof -
  let ?t = "scenario_pr valid_body"
  let ?c = "approval_comment ''@bob PR approved''"
  let ?cf = "Inr (Fetched 200 (Some ?c) None)"
  let ?i = "Inr (Fetched 200 (Some (Issue (Some ''open''))) None)"
  let ?w1 = "scenario_world ?cf ?i (Inr (Fetched 200 (Some (Permission (Some ''write''))) None))"
  let ?w2 = "scenario_world ?cf ?i (Inr (Fetched 200 (Some (Permission (Some ''read''))) None))"
  have c: "snd (get (comment_api ?w1) (api ?t @ ''/issues/comments/'' @ ref_commentId valid_reference))
              = Inr (Response 200 True (Some ?c) None)"
      "snd (get (comment_api ?w2) (api ?t @ ''/issues/comments/'' @ ref_commentId valid_reference))
              = Inr (Response 200 True (Some ?c) None)"
    by (simp_all add: get_scenario_comment)
  have i: "snd (get (issue_api ?w1) (case issue_url ?c of None \<Rightarrow> ''undefined'' | Some u \<Rightarrow> u))
              = Inr (Response 200 True (Some (Issue (Some ''open''))) None)"
      "snd (get (issue_api ?w2) (case issue_url ?c of None \<Rightarrow> ''undefined'' | Some u \<Rightarrow> u))
              = Inr (Response 200 True (Some (Issue (Some ''open''))) None)"
    by (simp_all add: get_scenario_issue)
  have p: "snd (get (permission_api ?w1) (api ?t @ ''/collaborators/'' @ ''carol'' @ ''/permission''))
              = Inr (Response 200 True (Some (Permission (Some ''write''))) None)"
      "snd (get (permission_api ?w2) (api ?t @ ''/collaborators/'' @ ''carol'' @ ''/permission''))
              = Inr (Response 200 True (Some (Permission (Some ''read''))) None)"
    by (simp_all add: get_scenario_permission)
  have b: "body ?c = Some ''@bob PR approved''" "user ?c = Some (Account (Some ''carol''))"
    by (simp_all add: approval_comment_def)
  have e: "str_includes ''@bob PR approved'' (expectedPhrase ?t)"
    by code_simp
  have 1: "snd (checkApproval ?w1 ?t) = Inr Approved"
    using permission_decides [OF scenario_reference c(1) _ _ i(1) _ _ _ b(1) e b(2) _ _ p(1)]
    by simp
  have 2: "snd (checkApproval ?w2 ?t)
             = Inr (ExitClosed ''@carol does not have write or admin access to this repository.'')"
    using permission_decides [OF scenario_reference c(2) _ _ i(2) _ _ _ b(1) e b(2) _ _ p(2)]
    by simp
  from 1 2 show ?thesis by (intro conjI)
qed

section \<open>The approval string\<close>

lemma str_includes_sublist: "str_includes s sub \<longleftrightarrow> sublist sub s"
  by (induction s) (simp_all add: sublist_Cons_right)

lemma prefix_of_longer:
  "prefix p (xs @ ys) \<Longrightarrow> length p \<le> length xs \<Longrightarrow> prefix p xs"
  by (metis prefix_length_prefix prefixI)

lemma find_first_at:
  assumes "pat \<noteq> []" and "\<not> sublist pat (pre @ butlast pat)"
  shows "find_first pat (pre @ pat @ post) = Some (pre, post)"
  using assms(2)
proof (induction pre)
  case Nil
  from assms(1) obtain c cs where "pat @ post = c # cs"
    by (cases pat) auto
  moreover have "prefix pat (pat @ post)" by simp
  ultimately show ?case
    by (metis append_Nil append_eq_conv_conj find_first.simps(2))
next
  case (Cons c pre)
  have no_prefix: "\<not> prefix pat (c # pre @ pat @ post)"
  proof
    assume a: "prefix pat (c # pre @ pat @ post)"
    have eq: "((c # pre) @ butlast pat) @ ([last pat] @ post) = c # pre @ pat @ post"
      using assms(1) by (metis append_butlast_last_id append.assoc append_Cons)
    from a have "prefix pat (((c # pre) @ butlast pat) @ ([last pat] @ post))"
      by (simp only: eq)
    moreover have "length pat \<le> length ((c # pre) @ butlast pat)"
      by simp
    ultimately have "prefix pat ((c # pre) @ butlast pat)"
      by (rule prefix_of_longer)
    with Cons.prems show False
      by (auto dest: prefix_imp_sublist)
  qed
  from Cons.prems have "\<not> sublist pat (pre @ butlast pat)"
    by (auto simp: sublist_Cons_right)
  with Cons.IH have "find_first pat (pre @ pat @ post) = Some (pre, post)" .
  with no_prefix show ?case by simp
qed

lemma getSubstitution_plain:
  "CHR ''$'' \<notin> set r \<Longrightarrow> getSubstitution m pre post r = r"
  by (induction m pre post r rule: getSubstitution.induct) auto

lemma expectedPhrase_eq:
  assumes "approvalStr (cfg t) = pre @ ''{user}'' @ post"
    and "\<not> sublist ''{user}'' (pre @ ''{user'')"
    and "CHR ''$'' \<notin> set (prUser t)"
  shows "expectedPhrase t = pre @ ''@'' @ prUser t @ post"
proof -
  have "find_first ''{user}'' (pre @ ''{user}'' @ post) = Some (pre, post)"
    using assms(2) by (intro find_first_at) simp_all
  moreover have "getSubstitution ''{user}'' pre post (''@'' @ prUser t) = ''@'' @ prUser t"
    using assms(3) by (intro getSubstitution_plain) simp
  ultimately show ?thesis
    by (simp add: expectedPhrase_def str_replace_def assms(1))
qed

lemma checkPermission_rejected:
  assumes "snd (get (permission_api w) (api t @ ''/collaborators/'' @ approver @ ''/permission''))
             = Inl msg"
  shows "checkPermission w t approver =
     ([Fetch GET (api t @ ''/collaborators/'' @ approver @ ''/permission'') None,
       SetFailed (''error checking approver permissions: '' @ msg)],
      Inr (Inl (ExitFailed (''error checking approver permissions: '' @ msg))))"
  unfolding checkPermission_def io_bind_Inl [OF assms]
  by (simp add: io_catch_def fst_get failWith_eq)

lemma after_phrase_not_phrase_closure:
  "snd (io_continue (findApprover c) (\<lambda>approver.
          io_continue (checkPermission w t approver) (\<lambda>_.
            io_bind (info (m approver)) (\<lambda>_. io_return Approved))))
     \<noteq> Inr (ExitClosed (''Approval string '' @ r))"
proof (cases "snd (findApprover c)")
  case (Inl e)
  then show ?thesis
    by (simp add: findApprover_eq split: option.splits if_splits)
next
  case (Inr x)
  show ?thesis
  proof (cases x)
    case (Inl e)
    with Inr have "snd (findApprover c) = Inr (Inl e)" by simp
    moreover from this have "\<exists>msg. e = ExitFailed msg"
      by (auto simp: findApprover_eq split: option.splits if_splits)
    ultimately show ?thesis
      by (auto simp: io_continue_Inl)
  next
    case (Inr approver)
    with \<open>snd (findApprover c) = Inr x\<close> have a: "snd (findApprover c) = Inr (Inr approver)"
      by simp
    show ?thesis
    proof (cases "snd (get (permission_api w)
                         (api t @ ''/collaborators/'' @ approver @ ''/permission''))")
      case (Inl msg)
      show ?thesis
        by (simp add: io_continue_Inr [OF a] checkPermission_rejected [OF Inl] io_continue_Inl)
    next
      case (Inr res)
      show ?thesis
        by (simp add: io_continue_Inr [OF a] checkPermission_response [OF Inr]
            io_continue_Inl io_continue_Inr io_bind_def info_def io_return_def)
    qed
  qed
qed

text \<open>
  C4. The expected approval string is the approval template with its first \<open>{user}\<close>
  replaced by \<open>@\<close> and the login of the pull request's author, as \<open>prUser\<close> holds it (a
  login has no \<open>$\<close>, the one character \<open>replace\<close> treats specially). Once the reference is
  found, the comment fetched and its issue open, the comment passes exactly when its body
  has the expected string as a contiguous part, compared character by character; when it
  does not, and only then, the pull request is closed with the reason that the approval
  string was not found.
\<close>

theorem approval_phrase_match:
  assumes "approvalStr (cfg t) = pre @ ''{user}'' @ post"
    and "\<not> sublist ''{user}'' (pre @ ''{user'')"
    and "CHR ''$'' \<notin> set (prUser t)"
    and "extractCommentURL (prBody t) (referenceStr (cfg t)) (owner t) (repo t) = Inr parsed"
    and "snd (get (comment_api w) (api t @ ''/issues/comments/'' @ ref_commentId parsed)) = Inr cres"
    and "status cres = 200" and "data cres = Some c"
    and "snd (get (issue_api w) (case issue_url c of None \<Rightarrow> ''undefined'' | Some u \<Rightarrow> u)) = Inr ires"
    and "status ires = 200" and "data ires = Some i" and "state i = Some ''open''"
  shows "expectedPhrase t = pre @ ''@'' @ prUser t @ post
     \<and> (snd (checkPhrase w t c) = Inr (Inr ())
          \<longleftrightarrow> (\<exists>b. body c = Some b \<and> sublist (pre @ ''@'' @ prUser t @ post) b))
     \<and> (snd (checkApproval w t)
            = Inr (ExitClosed (''Approval string '' @ [CHR 0x22] @ pre @ ''@'' @ prUser t @ post
                     @ [CHR 0x22] @ '' was not found in the referenced comment.''))
          \<longleftrightarrow> \<not> (\<exists>b. body c = Some b \<and> sublist (pre @ ''@'' @ prUser t @ post) b))
     \<and> (\<not> (\<exists>b. body c = Some b \<and> sublist (pre @ ''@'' @ prUser t @ post) b) \<longrightarrow>
          fst (checkApproval w t) =
            [Info (''Found comment URL: '' @ ref_commentUrl parsed),
             Fetch GET (api t @ ''/issues/comments/'' @ ref_commentId parsed) None,
             Fetch GET (case issue_url c of None \<Rightarrow> ''undefined'' | Some u \<Rightarrow> u) None]
            @ fst (closePR w t (''Approval string '' @ [CHR 0x22] @ pre @ ''@'' @ prUser t @ post
                     @ [CHR 0x22] @ '' was not found in the referenced comment.'')))"
proof -
  let ?expected = "pre @ ''@'' @ prUser t @ post"
  let ?found = "\<exists>b. body c = Some b \<and> sublist ?expected b"
  let ?reason = "''Approval string '' @ [CHR 0x22] @ ?expected @ [CHR 0x22]
                   @ '' was not found in the referenced comment.''"
  let ?before = "[Info (''Found comment URL: '' @ ref_commentUrl parsed),
             Fetch GET (api t @ ''/issues/comments/'' @ ref_commentId parsed) None,
             Fetch GET (case issue_url c of None \<Rightarrow> ''undefined'' | Some u \<Rightarrow> u) None]"
  have e: "expectedPhrase t = ?expected"
    using assms(1-3) by (rule expectedPhrase_eq)
  have found: "(case body c of None \<Rightarrow> False | Some b \<Rightarrow> str_includes b (expectedPhrase t))
                 \<longleftrightarrow> ?found"
    by (simp add: e str_includes_sublist split: option.splits)
  have step: "snd (checkPhrase w t c) = Inr (Inr ()) \<longleftrightarrow> ?found"
    unfolding checkPhrase_eq found by simp
  have start: "checkApproval w t =
      io_continue (?before @ fst (checkPhrase w t c), snd (checkPhrase w t c)) (\<lambda>_.
        io_continue (findApprover c) (\<lambda>approver.
          io_continue (checkPermission w t approver) (\<lambda>_.
            io_bind (info (''PR #'' @ show_nat (prNumber t) @ '' has valid approval from @''
                             @ approver @ ''. All checks passed.''))
              (\<lambda>_. io_return Approved))))"
    unfolding checkApproval_def
    using assms(6,7,9-11)
    by (simp add: findReference_found [OF assms(4)] fetchComment_response [OF assms(5)]
        checkIssue_response [OF assms(8)] io_continue_Inr io_continue_Inl io_continue_def
        io_bind_def split: prod.splits sum.splits)
  have missing: "checkApproval w t = (?before @ fst (closePR w t ?reason), Inr (ExitClosed ?reason))"
    if "\<not> ?found"
  proof -
    from that found
    have "\<not> (case body c of None \<Rightarrow> False | Some b \<Rightarrow> str_includes b (expectedPhrase t))"
      by blast
    then have "checkPhrase w t c = (fst (closePR w t ?reason), Inr (Inl (ExitClosed ?reason)))"
      by (simp add: checkPhrase_eq e)
    then show ?thesis
      unfolding start by (simp add: io_continue_Inl)
  qed
  have present: "snd (checkApproval w t) \<noteq> Inr (ExitClosed ?reason)" if "?found"
  proof -
    from that found
    have "case body c of None \<Rightarrow> False | Some b \<Rightarrow> str_includes b (expectedPhrase t)"
      by blast
    then have "checkPhrase w t c = ([], Inr (Inr ()))"
      by (simp add: checkPhrase_eq)
    then show ?thesis
      unfolding start
      using after_phrase_not_phrase_closure [of c w t _ "[CHR 0x22] @ ?expected @ [CHR 0x22]
                   @ '' was not found in the referenced comment.''"]
      by (simp add: io_continue_Inr)
  qed
  from e step missing present show ?thesis
    by (intro conjI impI iffI; (simp; fail)?) auto
qed

theorem approval_phrase_match_witness:
  "expectedPhrase alice_pr = ''@alice PR approved''
   \<and> snd (checkPhrase (scenario_world (commented ''@alice PR approved!'') open_issue (Inl ''offline''))
            alice_pr (approval_comment ''@alice PR approved!''))
       = Inr (Inr ())
   \<and> snd (checkApproval (scenario_world (commented ''@alice pr approved'') open_issue (Inl ''offline''))
            alice_pr)
       = Inr (ExitClosed (''Approval string '' @ [CHR 0x22] @ ''@alice PR approved'' @ [CHR 0x22]
                @ '' was not found in the referenced comment.''))"
proof -
  let ?t = alice_pr
  let ?c1 = "approval_comment ''@alice PR approved!''"
  let ?c2 = "approval_comment ''@alice pr approved''"
  let ?w1 = "scenario_world (commented ''@alice PR approved!'') open_issue (Inl ''offline'')"
  let ?w2 = "scenario_world (commented ''@alice pr approved'') open_issue (Inl ''offline'')"
  have tmpl: "approvalStr (cfg ?t) = [] @ ''{user}'' @ '' PR approved''"
    by (simp add: alice_pr_def scenario_pr_def DEFAULT_CONFIG_def)
  have first: "\<not> sublist ''{user}'' ([] @ ''{user'')"
    by (simp add: str_includes_sublist [symmetric])
  have login: "CHR ''$'' \<notin> set (prUser ?t)"
    by (simp add: alice_pr_def)
  have ref: "extractCommentURL (prBody ?t) (referenceStr (cfg ?t)) (owner ?t) (repo ?t)
               = Inr valid_reference"
    by code_simp
  have c: "snd (get (comment_api ?w1) (api ?t @ ''/issues/comments/'' @ ref_commentId valid_reference))
              = Inr (Response 200 True (Some ?c1) None)"
      "snd (get (comment_api ?w2) (api ?t @ ''/issues/comments/'' @ ref_commentId valid_reference))
              = Inr (Response 200 True (Some ?c2) None)"
    by (simp_all add: commented_def get_scenario_comment)
  have i: "snd (get (issue_api ?w1) (case issue_url ?c1 of None \<Rightarrow> ''undefined'' | Some u \<Rightarrow> u))
              = Inr (Response 200 True (Some (Issue (Some ''open''))) None)"
      "snd (get (issue_api ?w2) (case issue_url ?c2 of None \<Rightarrow> ''undefined'' | Some u \<Rightarrow> u))
              = Inr (Response 200 True (Some (Issue (Some ''open''))) None)"
    by (simp_all add: open_issue_def get_scenario_issue)
  have b1: "sublist ([] @ ''@'' @ prUser ?t @ '' PR approved'') ''@alice PR approved!''"
    by (simp add: alice_pr_def str_includes_sublist [symmetric])
  have b2: "\<not> sublist ([] @ ''@'' @ prUser ?t @ '' PR approved'') ''@alice pr approved''"
    by (simp add: alice_pr_def str_includes_sublist [symmetric])
  have u: "prUser ?t = ''alice''"
    by (simp add: alice_pr_def)
  from approval_phrase_match [OF tmpl first login ref c(1) _ _ i(1), where i = "Issue (Some ''open'')"]
  have 1: "expectedPhrase ?t = ''@alice PR approved''"
    and 2: "snd (checkPhrase ?w1 ?t ?c1) = Inr (Inr ())"
    using b1 by (simp_all add: approval_comment_def u)
  from approval_phrase_match [OF tmpl first login ref c(2) _ _ i(2), where i = "Issue (Some ''open'')"]
  have 3: "snd (checkApproval ?w2 ?t)
       = Inr (ExitClosed (''Approval string '' @ [CHR 0x22] @ ''@alice PR approved'' @ [CHR 0x22]
                @ '' was not found in the referenced comment.''))"
    using b2 by (simp add: approval_comment_def u)
  from 1 2 3 show ?thesis by (intro conjI)
qed

section \<open>A body without a usable reference\<close>

lemma failing_references:
  "extractCommentURL malformed_body ''Approval: {url}'' ''acme'' ''widgets'' = Inl NoURLFound"
  "extractCommentURL [] ''Approval: {url}'' ''acme'' ''widgets'' = Inl NoURLFound"
  "extractCommentURL foreign_body ''Approval: {url}'' ''acme'' ''widgets''
     = Inl (WrongRepository ''acme'' ''widgets'' ''other'' ''widgets'')"
  by code_simp+

lemma check_without_reference:
  assumes "extractCommentURL (prBody t) (referenceStr (cfg t)) (owner t) (repo t) = Inl err"
    and "\<not> excludeContribs (cfg t)"
  shows "check w t =
     Some ([Info (''verifying PR #'' @ show_nat (prNumber t) @ '' by @'' @ prUser t
                    @ '' in '' @ owner t @ ''/'' @ repo t),
            SetFailed (message err)],
           Inr (ExitFailed (message err)))"
  using assms(2)
  by (simp add: check_def checkApproval_def findReference_failed [OF assms(1)] io_continue_Inl
      io_bind_def info_def)

text \<open>
  C1. What the code does where the claim expects the pull request to be closed: for each
  of the three bodies, whatever the platform answers, \<open>check\<close> calls \<open>core.setFailed\<close> with
  the message of the extraction error and returns; it sends no request, so no comment is
  posted and the pull request stays open.
\<close>

theorem reference_failure_only_reported:
  "check w (scenario_pr malformed_body)
     = Some ([Info ''verifying PR #7 by @bob in acme/widgets'',
              SetFailed ''No approval comment URL found in the PR body.''],
             Inr (ExitFailed ''No approval comment URL found in the PR body.''))
   \<and> check w (scenario_pr [])
     = Some ([Info ''verifying PR #7 by @bob in acme/widgets'',
              SetFailed ''No approval comment URL found in the PR body.''],
             Inr (ExitFailed ''No approval comment URL found in the PR body.''))
   \<and> check w (scenario_pr foreign_body)
     = Some ([Info ''verifying PR #7 by @bob in acme/widgets'',
              SetFailed
                ''The referenced comment URL should belong to acme/widgets, not other/widgets.''],
             Inr (ExitFailed
                ''The referenced comment URL should belong to acme/widgets, not other/widgets.''))"
proof -
  have n: "show_nat 7 = ''7''"
    by code_simp
  have c: "\<not> excludeContribs (cfg (scenario_pr b))" for b
    by (simp add: scenario_pr_def DEFAULT_CONFIG_def)
  have f: "extractCommentURL (prBody (scenario_pr b)) (referenceStr (cfg (scenario_pr b)))
             (owner (scenario_pr b)) (repo (scenario_pr b))
           = extractCommentURL b ''Approval: {url}'' ''acme'' ''widgets''" for b
    by (simp add: scenario_pr_def DEFAULT_CONFIG_def)
  have "check w (scenario_pr malformed_body)
     = Some ([Info ''verifying PR #7 by @bob in acme/widgets'',
              SetFailed ''No approval comment URL found in the PR body.''],
             Inr (ExitFailed ''No approval comment URL found in the PR body.''))"
    using check_without_reference [OF f [of malformed_body, unfolded failing_references] c]
    by (simp add: scenario_pr_def n)
  moreover have "check w (scenario_pr [])
     = Some ([Info ''verifying PR #7 by @bob in acme/widgets'',
              SetFailed ''No approval comment URL found in the PR body.''],
             Inr (ExitFailed ''No approval comment URL found in the PR body.''))"
    using check_without_reference [OF f [of "[]", unfolded failing_references] c]
    by (simp add: scenario_pr_def n)
  moreover have "check w (scenario_pr foreign_body)
     = Some ([Info ''verifying PR #7 by @bob in acme/widgets'',
              SetFailed
                ''The referenced comment URL should belong to acme/widgets, not other/widgets.''],
             Inr (ExitFailed
                ''The referenced comment URL should belong to acme/widgets, not other/widgets.''))"
    using check_without_reference [OF f [of foreign_body, unfolded failing_references] c]
    by (simp add: scenario_pr_def n)
  ultimately show ?thesis by (intro conjI)
qed

theorem reference_failure_only_reported_witness:
  "check (scenario_world (commented ''@bob PR approved'') open_issue (Inl ''offline''))
     (scenario_pr malformed_body)
     = Some ([Info ''verifying PR #7 by @bob in acme/widgets'',
              SetFailed ''No approval comment URL found in the PR body.''],
             Inr (ExitFailed ''No approval comment URL found in the PR body.''))"
  using reference_failure_only_reported
    [of "scenario_world (commented ''@bob PR approved'') open_issue (Inl ''offline'')"]
  by (elim conjE)

section \<open>Remediation\<close>

lemma closePR_trace:
  "fst (closePR w t reason) =
     Info reason # Fetch POST (comments_url t) (Some (autoclose_comment t reason)) #
     (case write_api w POST (comments_url t) (autoclose_comment t reason) of
        Inl msg \<Rightarrow> [Info ''error closing PR'']
      | Inr res \<Rightarrow>
          (if 200 \<le> f_status res \<and> f_status res \<le> 299 then []
           else [Info (''errror posting auto-close comment (status '' @ show_nat (f_status res)
                         @ '').'')])
          @ Fetch PATCH (pull_url t) (Some (StatePayload ''closed'')) #
            (case write_api w PATCH (pull_url t) (StatePayload ''closed'') of
               Inl msg \<Rightarrow> [Info ''error closing PR'']
             | Inr closeRes \<Rightarrow>
                 if 200 \<le> f_status closeRes \<and> f_status closeRes \<le> 299 then []
                 else [Info (''errror closing PR #'' @ show_nat (prNumber t) @ '' (status ''
                               @ show_nat (f_status closeRes) @ '').'')]))"
  unfolding closePR_def comments_url_def pull_url_def autoclose_comment_def
  by (simp add: send_def request_def io_bind_def io_catch_def io_throw_def io_return_def info_def
      split: sum.splits)

text \<open>
  C8, as the code has it. \<open>_closePR\<close> never throws, and it always sends the request that
  posts the comment. When that request gets a response, of whatever status, the request
  that closes the pull request is sent next; a status outside 200 to 299 of either is
  logged, and so is a transport failure of the closing request. When the posting request
  fails in transport, the failure is logged and the closing request is not sent: both
  requests stand in one \<open>try\<close> block.
\<close>

theorem closePR_best_effort:
  "snd (closePR w t reason) = Inr ()
   \<and> Fetch POST (comments_url t) (Some (autoclose_comment t reason)) \<in> set (fst (closePR w t reason))
   \<and> (\<forall>res. write_api w POST (comments_url t) (autoclose_comment t reason) = Inr res \<longrightarrow>
         Fetch PATCH (pull_url t) (Some (StatePayload ''closed'')) \<in> set (fst (closePR w t reason))
         \<and> (\<not> (200 \<le> f_status res \<and> f_status res \<le> 299) \<longrightarrow>
              Info (''errror posting auto-close comment (status '' @ show_nat (f_status res)
                      @ '').'') \<in> set (fst (closePR w t reason)))
         \<and> (\<forall>closeRes. write_api w PATCH (pull_url t) (StatePayload ''closed'') = Inr closeRes
               \<and> \<not> (200 \<le> f_status closeRes \<and> f_status closeRes \<le> 299) \<longrightarrow>
              Info (''errror closing PR #'' @ show_nat (prNumber t) @ '' (status ''
                      @ show_nat (f_status closeRes) @ '').'') \<in> set (fst (closePR w t reason)))
         \<and> (\<forall>msg. write_api w PATCH (pull_url t) (StatePayload ''closed'') = Inl msg \<longrightarrow>
              Info ''error closing PR'' \<in> set (fst (closePR w t reason))))
   \<and> (\<forall>msg. write_api w POST (comments_url t) (autoclose_comment t reason) = Inl msg \<longrightarrow>
         fst (closePR w t reason)
           = [Info reason, Fetch POST (comments_url t) (Some (autoclose_comment t reason)),
              Info ''error closing PR''])"
  by (simp add: snd_closePR closePR_trace)

theorem closePR_best_effort_witness:
  "snd (closePR (scenario_world (Inl ''offline'') (Inl ''offline'') (Inl ''offline''))
          (scenario_pr valid_body) ''The referenced PR approval comment was not found.'')
     = Inr ()
   \<and> Fetch PATCH (pull_url (scenario_pr valid_body)) (Some (StatePayload ''closed''))
       \<in> set (fst (closePR (scenario_world (Inl ''offline'') (Inl ''offline'') (Inl ''offline''))
                     (scenario_pr valid_body) ''The referenced PR approval comment was not found.''))
   \<and> fst (closePR post_fails (scenario_pr valid_body)
            ''The referenced PR approval comment was not found.'')
     = [Info ''The referenced PR approval comment was not found.'',
        Fetch POST (comments_url (scenario_pr valid_body))
          (Some (autoclose_comment (scenario_pr valid_body)
                   ''The referenced PR approval comment was not found.'')),
        Info ''error closing PR'']"
proof -
  let ?w = "scenario_world (Inl ''offline'') (Inl ''offline'') (Inl ''offline'')"
  let ?t = "scenario_pr valid_body"
  let ?r = "''The referenced PR approval comment was not found.''"
  have a: "write_api ?w POST (comments_url ?t) (autoclose_comment ?t ?r)
             = Inr (Fetched 200 None None)"
    by (simp add: scenario_world_def)
  have b: "write_api post_fails POST (comments_url ?t) (autoclose_comment ?t ?r)
             = Inl ''socket hang up''"
    by (simp add: post_fails_def)
  from closePR_best_effort [of ?w ?t ?r] a closePR_best_effort [of post_fails ?t ?r] b
  show ?thesis
    by blast
qed

text \<open>
  C8 as stated fails: on a platform where the posting request fails in transport, the
  request that closes the pull request is never sent.
\<close>

theorem close_not_attempted_after_failed_post:
  "write_api post_fails POST (comments_url (scenario_pr valid_body))
     (autoclose_comment (scenario_pr valid_body)
        ''The referenced PR approval comment was not found.'')
     = Inl ''socket hang up''
   \<and> Fetch PATCH (pull_url (scenario_pr valid_body)) (Some (StatePayload ''closed''))
       \<notin> set (fst (closePR post_fails (scenario_pr valid_body)
                     ''The referenced PR approval comment was not found.''))"
  by (simp add: closePR_trace post_fails_def)

section \<open>The owner's own pull requests\<close>

text \<open>
  C3, as the code has it. With the event read and a token given, a pull request whose
  author's login equals the owner's, letter case aside, makes \<open>run\<close> log one line and
  return before the configuration is built: no request is sent and \<open>check\<close> is not called,
  whatever the inputs are. No input named \<open>force_validate_owner_prs\<close> is ever read: setting
  it to any value changes nothing in any run.
\<close>

theorem owner_short_circuit:
  "(GITHUB_EVENT_PATH e = Some path \<and> path \<noteq> [] \<and> event_file e path = Inr (Some pr)
      \<and> getInput e ''github_token'' \<noteq> []
      \<and> toLowerCase (pr_base_repo_owner_login pr) = toLowerCase (pr_user_login pr) \<longrightarrow>
      run e w = Some ([Info ''PR author is the same as the repo owner. Skipping approval checks.''],
                      Inr OwnerSkip))
   \<and> run (e\<lparr>getInput := (getInput e)(''force_validate_owner_prs'' := v)\<rparr>) w = run e w"
proof (intro conjI impI)
  assume "GITHUB_EVENT_PATH e = Some path \<and> path \<noteq> [] \<and> event_file e path = Inr (Some pr)
      \<and> getInput e ''github_token'' \<noteq> []
      \<and> toLowerCase (pr_base_repo_owner_login pr) = toLowerCase (pr_user_login pr)"
  then show "run e w
      = Some ([Info ''PR author is the same as the repo owner. Skipping approval checks.''],
              Inr OwnerSkip)"
    by (simp add: run_def io_bind_def info_def io_return_def)
next
  let ?e = "e\<lparr>getInput := (getInput e)(''force_validate_owner_prs'' := v)\<rparr>"
  have "makeConfig ?e = makeConfig e"
    by (simp add: makeConfig_def)
  moreover have "makeChecker ?e pr = makeChecker e pr" for pr
    by (simp add: makeChecker_def \<open>makeConfig ?e = makeConfig e\<close>)
  ultimately show "run ?e w = run e w"
    by (simp add: run_def split: option.splits sum.splits)
qed

theorem owner_short_circuit_witness:
  "run forced_env silent_world
     = Some ([Info ''PR author is the same as the repo owner. Skipping approval checks.''],
             Inr OwnerSkip)"
proof -
  have "GITHUB_EVENT_PATH forced_env = Some ''/github/workflow/event.json''
      \<and> ''/github/workflow/event.json'' \<noteq> []
      \<and> event_file forced_env ''/github/workflow/event.json'' = Inr (Some owner_pr)
      \<and> getInput forced_env ''github_token'' \<noteq> []
      \<and> toLowerCase (pr_base_repo_owner_login owner_pr) = toLowerCase (pr_user_login owner_pr)"
    by (simp add: forced_env_def owner_pr_def toLowerCase_def lowerChar_def)
  with owner_short_circuit [of forced_env "''/github/workflow/event.json''" owner_pr silent_world]
  show ?thesis
    by blast
qed

text \<open>
  C3 as stated fails: with \<open>force_validate_owner_prs\<close> set to \<open>true\<close>, the owner's pull request
  is skipped all the same, although \<open>check\<close> on it would have reported the missing reference.
\<close>

theorem forced_owner_pr_still_skipped:
  "getInput forced_env ''force_validate_owner_prs'' = ''true''
   \<and> run forced_env silent_world
       = Some ([Info ''PR author is the same as the repo owner. Skipping approval checks.''],
               Inr OwnerSkip)
   \<and> check silent_world (makeChecker forced_env owner_pr)
       = Some ([Info ''verifying PR #7 by @acme in acme/widgets'',
                SetFailed ''No approval comment URL found in the PR body.''],
               Inr (ExitFailed ''No approval comment URL found in the PR body.''))"
  by code_simp

section \<open>The contributor list\<close>

lemma get_page: "get (contributors_api w) (contributors_url t n)
    = ([Fetch GET (contributors_url t n) None], page w t n)"
  by (simp add: page_def fst_get prod_eq_iff)

lemma page_advances:
  "advances w t n \<Longrightarrow>
   contributorsPage w t n es = Inr (es @ [Fetch GET (contributors_url t n) None])"
  by (auto simp: contributorsPage_def get_page advances_def split: sum.splits option.splits)

lemma page_stops:
  "\<not> advances w t n \<Longrightarrow>
   contributorsPage w t n es
     = Inl (es @ [Fetch GET (contributors_url t n) None], verdict w t n)"
  by (auto simp: contributorsPage_def get_page advances_def verdict_def
      split: sum.splits option.splits)

lemma loop_step:
  "advances w t n \<Longrightarrow>
   isContributor_from w t n es
     = isContributor_from w t (n + 1) (es @ [Fetch GET (contributors_url t n) None])"
  by (subst isContributor_from.simps) (simp add: page_advances)

lemma loop_stop:
  "\<not> advances w t n \<Longrightarrow>
   isContributor_from w t n es
     = Some (es @ [Fetch GET (contributors_url t n) None], verdict w t n)"
  by (subst isContributor_from.simps) (simp add: page_stops)

lemma loop_runs_to_stop:
  assumes "\<forall>j. p \<le> j \<and> j < k \<longrightarrow> advances w t j" and "p \<le> k" and "\<not> advances w t k"
  shows "isContributor_from w t p es = Some (es @ page_requests t p k, verdict w t k)"
  using assms
proof (induction "k - p" arbitrary: p es)
  case 0
  then have "p = k" by simp
  with 0 show ?case
    by (simp add: loop_stop page_requests_def)
next
  case (Suc d)
  then have lt: "p < k" by simp
  with Suc.prems have "advances w t p" by simp
  then have "isContributor_from w t p es
      = isContributor_from w t (p + 1) (es @ [Fetch GET (contributors_url t p) None])"
    by (rule loop_step)
  also have "\<dots> = Some ((es @ [Fetch GET (contributors_url t p) None])
                        @ page_requests t (p + 1) k, verdict w t k)"
    using Suc.hyps(2) Suc.prems lt by (intro Suc.hyps(1)) auto
  also have "(es @ [Fetch GET (contributors_url t p) None]) @ page_requests t (p + 1) k
      = es @ page_requests t p k"
    using lt by (simp add: page_requests_def upt_conv_Cons)
  finally show ?case .
qed

lemma loop_returns_only_if_stops:
  assumes "isContributor_from w t p es = Some y"
  shows "\<exists>k. p \<le> k \<and> \<not> advances w t k"
proof (rule isContributor_from.raw_induct
    [where P = "\<lambda>w t p es y. \<exists>k. p \<le> k \<and> \<not> advances w t k", OF _ assms])
  fix f w t p es y
  assume IH: "\<And>w t p es y. f w t p es = Some y \<Longrightarrow> \<exists>k. p \<le> k \<and> \<not> advances w t k"
    and body: "(case contributorsPage w t p es of
                  Inl returned \<Rightarrow> Some returned
                | Inr es' \<Rightarrow> f w t (p + 1) es') = Some y"
  show "\<exists>k. p \<le> k \<and> \<not> advances w t k"
  proof (cases "advances w t p")
    case False
    then have "p \<le> p \<and> \<not> advances w t p" by simp
    then show ?thesis by (rule exI)
  next
    case True
    from body have "f w t (p + 1) (es @ [Fetch GET (contributors_url t p) None]) = Some y"
      by (simp only: page_advances [OF True] sum.case)
    then have "\<exists>k. p + 1 \<le> k \<and> \<not> advances w t k"
      by (rule IH)
    then obtain k where "p + 1 \<le> k \<and> \<not> advances w t k" ..
    then have "p \<le> k \<and> \<not> advances w t k" by simp
    then show ?thesis by (rule exI)
  qed
qed

lemma first_stop:
  assumes "\<exists>k. p \<le> k \<and> \<not> advances w t k"
  obtains k where "p \<le> k" "\<not> advances w t k" "\<forall>j. p \<le> j \<and> j < k \<longrightarrow> advances w t j"
proof -
  define Q where "Q k \<longleftrightarrow> p \<le> k \<and> \<not> advances w t k" for k
  from assms have "\<exists>k. Q k"
    by (auto simp: Q_def)
  then obtain k where "Q k" "\<forall>j<k. \<not> Q j"
    by (auto simp: exists_least_iff [of Q])
  then show thesis
    by (intro that [of k]) (auto simp: Q_def)
qed

lemma isContributor_cases:
  "(\<exists>k\<ge>1. (\<forall>j. 1 \<le> j \<and> j < k \<longrightarrow> advances w t j) \<and> \<not> advances w t k
          \<and> isContributor w t = Some (page_requests t 1 k, verdict w t k))
   \<or> ((\<forall>k\<ge>1. advances w t k) \<and> isContributor w t = None)"
proof (cases "\<exists>k\<ge>1. \<not> advances w t k")
  case True
  then obtain k where k: "1 \<le> k" "\<not> advances w t k" "\<forall>j. 1 \<le> j \<and> j < k \<longrightarrow> advances w t j"
    by (rule first_stop)
  from loop_runs_to_stop [OF k(3,1,2), of "[]"]
  have "isContributor w t = Some (page_requests t 1 k, verdict w t k)"
    by (simp add: isContributor_def)
  with k show ?thesis by blast
next
  case False
  then have "isContributor_from w t 1 [] = None"
    using loop_returns_only_if_stops [of w t 1 "[]"] by (cases "isContributor_from w t 1 []") auto
  with False show ?thesis
    by (simp add: isContributor_def)
qed

lemma author_match:
  "prUser t = toLowerCase author \<Longrightarrow>
   list_ex (\<lambda>c. map_option toLowerCase (login c) = Some (prUser t)) cs
     = list_ex (\<lambda>c. case login c of None \<Rightarrow> False | Some l \<Rightarrow> toLowerCase l = toLowerCase author) cs"
  by (induction cs) (auto split: option.splits)

lemma lists_author_verdict:
  assumes "prUser t = toLowerCase author"
  shows "lists_author w t author k \<longleftrightarrow> verdict w t k = Inr True"
proof (cases "page w t k")
  case (Inl msg)
  then show ?thesis
    by (simp add: lists_author_def verdict_def)
next
  case (Inr res)
  show ?thesis
  proof (cases "data res")
    case None
    with Inr show ?thesis
      by (simp add: lists_author_def verdict_def)
  next
    case (Some cs)
    with Inr show ?thesis
      unfolding lists_author_def verdict_def author_match [OF assms] by simp
  qed
qed

lemma verdict_stops: "verdict w t k = Inr True \<Longrightarrow> \<not> advances w t k"
  by (auto simp: verdict_def advances_def split: sum.splits option.splits)

lemma unusable_page:
  "page w t k = Inr res \<Longrightarrow> status res \<noteq> 200 \<or> data res = None \<Longrightarrow>
   \<not> advances w t k \<and> verdict w t k = Inr False"
  by (auto simp: verdict_def advances_def split: option.splits)

text \<open>
  C7. Let \<open>prUser\<close> be the author's login in lower case, as \<open>run\<close> sets it. The gate returns
  true exactly when some page \<open>k\<close> was read with status 200 and lists a login equal to
  the author's, letter case aside, every page before \<open>k\<close> having sent the loop on (status
  200, no such login, a next page advertised). A page reached with another status or
  without data makes the gate return false, after one request for each page up to it, and
  no error is thrown. When the gate returns false, \<open>check\<close> logs it and goes on with the
  verification.
\<close>

theorem contributor_gate:
  assumes "prUser t = toLowerCase author"
  shows "((\<exists>es. isContributor w t = Some (es, Inr True))
          \<longleftrightarrow> (\<exists>k\<ge>1. (\<forall>j. 1 \<le> j \<and> j < k \<longrightarrow> advances w t j) \<and> lists_author w t author k))
     \<and> (\<forall>k res. 1 \<le> k \<and> (\<forall>j. 1 \<le> j \<and> j < k \<longrightarrow> advances w t j) \<and> page w t k = Inr res
            \<and> (status res \<noteq> 200 \<or> data res = None) \<longrightarrow>
          isContributor w t = Some (page_requests t 1 k, Inr False))
     \<and> (\<forall>es. excludeContribs (cfg t) \<and> isContributor w t = Some (es, Inr False) \<longrightarrow>
          check w t =
            Some ([Info (''verifying PR #'' @ show_nat (prNumber t) @ '' by @'' @ prUser t
                           @ '' in '' @ owner t @ ''/'' @ repo t),
                   Info ''exclude_past_contributors is enabled. Checking contributor list'']
                  @ es
                  @ [Info (''@'' @ prUser t
                             @ '' is not a past contributor. Continue with approval check.'')]
                  @ fst (checkApproval w t),
                  snd (checkApproval w t)))"
proof (intro conjI allI impI)
  show "(\<exists>es. isContributor w t = Some (es, Inr True))
          \<longleftrightarrow> (\<exists>k\<ge>1. (\<forall>j. 1 \<le> j \<and> j < k \<longrightarrow> advances w t j) \<and> lists_author w t author k)"
  proof
    assume "\<exists>es. isContributor w t = Some (es, Inr True)"
    then obtain es where r: "isContributor w t = Some (es, Inr True)" ..
    with isContributor_cases [of w t] obtain k where
      "1 \<le> k" "\<forall>j. 1 \<le> j \<and> j < k \<longrightarrow> advances w t j" "verdict w t k = Inr True"
      by auto
    with assms show "\<exists>k\<ge>1. (\<forall>j. 1 \<le> j \<and> j < k \<longrightarrow> advances w t j) \<and> lists_author w t author k"
      by (auto simp: lists_author_verdict)
  next
    assume "\<exists>k\<ge>1. (\<forall>j. 1 \<le> j \<and> j < k \<longrightarrow> advances w t j) \<and> lists_author w t author k"
    then obtain k where k: "1 \<le> k" "\<forall>j. 1 \<le> j \<and> j < k \<longrightarrow> advances w t j"
      and "lists_author w t author k"
      by blast
    with assms have v: "verdict w t k = Inr True"
      by (simp add: lists_author_verdict)
    from loop_runs_to_stop [OF k(2,1) verdict_stops [OF v], of "[]"] v
    show "\<exists>es. isContributor w t = Some (es, Inr True)"
      by (simp add: isContributor_def)
  qed
next
  fix k res
  assume a: "1 \<le> k \<and> (\<forall>j. 1 \<le> j \<and> j < k \<longrightarrow> advances w t j) \<and> page w t k = Inr res
            \<and> (status res \<noteq> 200 \<or> data res = None)"
  then have "\<not> advances w t k \<and> verdict w t k = Inr False"
    by (intro unusable_page [of w t k res]) simp_all
  with a loop_runs_to_stop [of 1 k w t "[]"]
  show "isContributor w t = Some (page_requests t 1 k, Inr False)"
    by (simp add: isContributor_def)
next
  fix es
  assume "excludeContribs (cfg t) \<and> isContributor w t = Some (es, Inr False)"
  then show "check w t =
            Some ([Info (''verifying PR #'' @ show_nat (prNumber t) @ '' by @'' @ prUser t
                           @ '' in '' @ owner t @ ''/'' @ repo t),
                   Info ''exclude_past_contributors is enabled. Checking contributor list'']
                  @ es
                  @ [Info (''@'' @ prUser t
                             @ '' is not a past contributor. Continue with approval check.'')]
                  @ fst (checkApproval w t),
                  snd (checkApproval w t))"
    by (simp add: check_def contributorGate_def io_continue_def io_bind_def io_catch_def
        info_def io_return_def split: prod.splits sum.splits)
qed

lemma two_pages_facts:
  "prUser gate_pr = toLowerCase ''Bob''"
  "advances two_pages gate_pr 1"
  "lists_author two_pages gate_pr ''Bob'' 2"
  "\<not> advances two_pages gate_pr 2"
  "verdict two_pages gate_pr 2 = Inr True"
  by code_simp+

lemma broken_page_facts:
  "advances broken_page gate_pr 1"
  "page broken_page gate_pr 2 = Inr (Response 500 False (Some [Account (Some ''BOB'')]) None)"
  by code_simp+

lemma before_second:
  assumes "advances w t 1"
  shows "\<forall>j. 1 \<le> j \<and> j < 2 \<longrightarrow> advances w t j"
proof (intro allI impI)
  fix j :: nat
  assume "1 \<le> j \<and> j < 2"
  then have "j = 1" by simp
  with assms show "advances w t j" by simp
qed

theorem contributor_gate_witness:
  "prUser gate_pr = toLowerCase ''Bob''
   \<and> (\<exists>es. isContributor two_pages gate_pr = Some (es, Inr True))
   \<and> isContributor broken_page gate_pr = Some (page_requests gate_pr 1 2, Inr False)
   \<and> map_option snd (check broken_page gate_pr) = Some (snd (checkApproval broken_page gate_pr))"
proof -
  note g = contributor_gate [OF two_pages_facts(1)]
  have "\<exists>k\<ge>1. (\<forall>j. 1 \<le> j \<and> j < k \<longrightarrow> advances two_pages gate_pr j)
            \<and> lists_author two_pages gate_pr ''Bob'' k"
    using before_second [OF two_pages_facts(2)] two_pages_facts(3) by (intro exI [of _ 2]) simp
  with g [of two_pages] have 1: "\<exists>es. isContributor two_pages gate_pr = Some (es, Inr True)"
    by blast
  have "1 \<le> (2::nat) \<and> (\<forall>j. 1 \<le> j \<and> j < 2 \<longrightarrow> advances broken_page gate_pr j)
      \<and> page broken_page gate_pr 2 = Inr (Response 500 False (Some [Account (Some ''BOB'')]) None)
      \<and> (status (Response 500 False (Some [Account (Some ''BOB'')]) None) \<noteq> 200
          \<or> data (Response 500 False (Some [Account (Some ''BOB'')]) None) = None)"
    using before_second [OF broken_page_facts(1)] broken_page_facts(2) by simp
  with g [of broken_page]
  have 2: "isContributor broken_page gate_pr = Some (page_requests gate_pr 1 2, Inr False)"
    by blast
  have "excludeContribs (cfg gate_pr)"
    by (simp add: gate_pr_def)
  with g [of broken_page] 2
  have 3: "map_option snd (check broken_page gate_pr)
             = Some (snd (checkApproval broken_page gate_pr))"
    by simp
  from two_pages_facts(1) 1 2 3 show ?thesis
    by (intro conjI)
qed

text \<open>
  C9, as the code has it. The loop goes on to the next page only after a page whose
  \<open>link\<close> header contains the text \<open>rel="next"\<close>; a page without the header, or with a
  header without that text, ends it. It returns exactly when some page does not send it
  on, and then after one request for each page up to the first such page.
\<close>

theorem pagination_returns_iff:
  "((\<exists>r. isContributor w t = Some r) \<longleftrightarrow> (\<exists>k\<ge>1. \<not> advances w t k))
   \<and> (\<forall>k\<ge>1. (\<forall>j. 1 \<le> j \<and> j < k \<longrightarrow> advances w t j) \<and> \<not> advances w t k \<longrightarrow>
         isContributor w t = Some (page_requests t 1 k, verdict w t k))
   \<and> (\<forall>k. advances w t k \<longrightarrow>
         (\<exists>res l. page w t k = Inr res \<and> link res = Some l \<and> str_includes l rel_next))
   \<and> (\<forall>k res. page w t k = Inr res
          \<and> (link res = None \<or> (\<exists>l. link res = Some l \<and> \<not> str_includes l rel_next)) \<longrightarrow>
         \<not> advances w t k)"
proof (intro conjI allI impI)
  show "(\<exists>r. isContributor w t = Some r) \<longleftrightarrow> (\<exists>k\<ge>1. \<not> advances w t k)"
    using isContributor_cases [of w t] by auto
next
  fix k
  assume "1 \<le> k" and "(\<forall>j. 1 \<le> j \<and> j < k \<longrightarrow> advances w t j) \<and> \<not> advances w t k"
  with loop_runs_to_stop [of 1 k w t "[]"]
  show "isContributor w t = Some (page_requests t 1 k, verdict w t k)"
    by (simp add: isContributor_def)
next
  fix k
  assume "advances w t k"
  then show "\<exists>res l. page w t k = Inr res \<and> link res = Some l \<and> str_includes l rel_next"
    by (auto simp: advances_def rel_next_def split: sum.splits option.splits)
next
  fix k res
  assume "page w t k = Inr res
          \<and> (link res = None \<or> (\<exists>l. link res = Some l \<and> \<not> str_includes l rel_next))"
  then show "\<not> advances w t k"
    by (auto simp: advances_def rel_next_def)
qed

theorem pagination_returns_iff_witness:
  "isContributor two_pages gate_pr = Some (page_requests gate_pr 1 2, Inr True)"
proof -
  have "(\<forall>j. 1 \<le> j \<and> j < 2 \<longrightarrow> advances two_pages gate_pr j) \<and> \<not> advances two_pages gate_pr 2"
    using before_second [OF two_pages_facts(2)] two_pages_facts(4) by simp
  with pagination_returns_iff [of two_pages gate_pr] two_pages_facts(5)
  show ?thesis
    by (metis one_le_numeral)
qed

lemma endless_advances: "advances endless_pages gate_pr k"
  by (simp add: advances_def page_def get_def request_def io_bind_def io_return_def
      endless_pages_def scenario_world_def rel_next_def)

text \<open>
  C9 as stated fails: when every page is answered with status 200, a list without the
  author and a \<open>link\<close> header containing \<open>rel="next"\<close> (here a header that is nothing but
  that text), the loop never returns.
\<close>

theorem endless_pagination:
  "isContributor endless_pages gate_pr = None"
  using isContributor_cases [of endless_pages gate_pr] endless_advances
  by blast

end
